theory Spec2Isabelle
  imports Main "HOL-Library.Sublist"
begin

section \<open>The project manager of the web editor\<close>

text \<open>
  A shallow embedding of the class \<open>Project\<close> (the second document of
  \<^verbatim>\<open>src/tests/unit/support/providers/amdRequire.ts\<close>, from its line 228 on).

  The class keeps two private fields, \<open>_project\<close> (the parsed bundle or
  \<open>undefined\<close>) and \<open>_fileMap\<close> (a \<open>WeakMap\<close> from project file objects to their
  meta data). Its methods mutate these fields, the \<open>text\<close> of the project file objects,
  and, through the monaco-editor API, the store of editor models and the TypeScript
  defaults. All of that is one record \<open>State\<close> here, passed through every method; a
  method returns its result (or the error it throws) together with the state it leaves
  behind, so that the state at the moment of a \<open>throw\<close> is part of the model.

  Object identity. \<open>_fileMap\<close> is keyed by the identity of the objects of
  \<open>_project.files\<close>. That array comes from \<open>JSON.parse\<close>, so its elements are pairwise
  distinct objects, and no method adds, removes or reorders its elements. A reference to a
  project file is therefore modelled as the position of the object in the array. The
  \<open>name\<close> and \<open>type\<close> of a project file are never assigned to; only \<open>text\<close> is.

  A handle of a monaco model is its position in the list of models created so far.
\<close>

subsection \<open>Data\<close>

datatype ProjectFileType =
  Definition | TypeScript | Lib | HTML | JavaScript | Markdown | CSS | JSON | PlainText | XML

record ProjectFile =
  pf_name :: string
  pf_text :: string
  pf_type :: ProjectFileType

text \<open>Values of compiler options; \<open>JUndefined\<close> is JavaScript's \<open>undefined\<close>.\<close>

datatype JsValue =
  JUndefined | JBool bool | JNum int | JStr string | JStrs "string list" | JEnum string

type_synonym CompilerOptions = "(string \<times> JsValue) list"

record TsConfig =
  compilerOptions :: "CompilerOptions option"

record ProjectBundle =
  files :: "ProjectFile list"
  environmentFiles :: "ProjectFile list"
  tsconfig :: TsConfig

text \<open>\<open>interface ProjectFileData\<close>: both members are optional.\<close>

record ProjectFileData =
  dirty :: "bool option"
  model :: "nat option"

record EmitFile =
  ef_name :: string
  ef_text :: string

text \<open>What \<open>getEmitOutput\<close> of the TypeScript worker resolves to.\<close>

record EmitOutput =
  emitSkipped :: bool
  outputFiles :: "EmitFile list"

text \<open>
  Every \<open>throw\<close> of the class is \<open>new Error(message)\<close>; the constructors name the
  three messages. \<open>NotLoadedError\<close> is 'Project not loaded.', \<open>AlreadyLoadedError\<close> is
  'Project is already loaded.', \<open>UnknownFileError f\<close> is 'File "f" is not part of the
  project.'. \<open>ExternalError\<close> is a rejection or exception of a collaborator (request,
  \<open>JSON.parse\<close>, monaco, the worker), and \<open>TypeError\<close> the dereference of an
  undefined \<open>_project\<close> behind the non-null assertion \<open>this._project!\<close>.
\<close>

datatype error =
  NotLoadedError | AlreadyLoadedError | UnknownFileError string | ExternalError string | TypeError

subsection \<open>The collaborators\<close>

text \<open>
  The parts of a \<open>monaco.Uri\<close> the class reads: \<open>fsPath\<close> and \<open>toString()\<close>.
\<close>

record Uri =
  fsPath :: string
  toString :: string

text \<open>A monaco-editor model: its content (\<open>getValue()\<close>), its language and its uri.\<close>

record IModel =
  m_value :: string
  m_language :: string
  m_uri :: Uri

text \<open>\<open>monaco.languages.typescript.typescriptDefaults\<close>: the options and the extra libs set so far.\<close>

record TsDefaults =
  td_options :: "CompilerOptions option"
  td_extraLibs :: "(string \<times> string) list"

text \<open>
  The code of the collaborators is not part of the repository, so it is a parameter of
  the model: \<open>Uri_file\<close> is \<open>monaco.Uri.file\<close>; \<open>setCompilerOptions\<close> and
  \<open>addExtraLib\<close> are the two methods of \<open>typescriptDefaults\<close>, which may throw;
  \<open>getTypeScriptWorker\<close> resolves to a worker accessor, which resolves for a list of uris
  to a client, whose \<open>getEmitOutput\<close> resolves to an emit output, and each of the three
  may reject; \<open>request\<close> is \<open>JSON.parse(await (await request(filename)).text())\<close>,
  the bundle fetched and parsed, which may reject.
\<close>

record Collaborators =
  Uri_file :: "string \<Rightarrow> Uri"
  setCompilerOptions :: "CompilerOptions \<Rightarrow> TsDefaults \<Rightarrow> error + TsDefaults"
  addExtraLib :: "string \<Rightarrow> string \<Rightarrow> TsDefaults \<Rightarrow> error + TsDefaults"
  getTypeScriptWorker :: "error + (Uri list \<Rightarrow> error + (string \<Rightarrow> error + EmitOutput))"
  request :: "string \<Rightarrow> error + ProjectBundle"

subsection \<open>State and the sequencing of methods that may throw\<close>

record State =
  project :: "ProjectBundle option"
  fileMap :: "nat \<rightharpoonup> ProjectFileData"
  models :: "IModel list"
  typescriptDefaults :: TsDefaults

text \<open>The state of \<open>new Project()\<close> in a fresh page.\<close>

definition initial :: State where
  "initial = \<lparr>project = None, fileMap = Map.empty, models = [],
     typescriptDefaults = \<lparr>td_options = None, td_extraLibs = []\<rparr>\<rparr>"

type_synonym 'a call = "State \<Rightarrow> (error + 'a) \<times> State"

definition ret :: "'a \<Rightarrow> 'a call" where
  "ret x s = (Inr x, s)"

definition throw :: "error \<Rightarrow> 'a call" where
  "throw e s = (Inl e, s)"

text \<open>Run \<open>m\<close>, then \<open>k\<close> on its result; an error of \<open>m\<close> ends the sequence in the state \<open>m\<close> left.\<close>

definition bind :: "'a call \<Rightarrow> ('a \<Rightarrow> 'b call) \<Rightarrow> 'b call" where
  "bind m k s = (case m s of (Inl e, s') \<Rightarrow> (Inl e, s') | (Inr x, s') \<Rightarrow> k x s')"

text \<open>A collaborator's answer that does not touch the state.\<close>

definition lift :: "error + 'a \<Rightarrow> 'a call" where
  "lift r s = (r, s)"

text \<open>\<open>xs.map(f)\<close> and \<open>xs.forEach(f)\<close> for a callback with effects, in array order.\<close>

fun mapM :: "('a \<Rightarrow> 'b call) \<Rightarrow> 'a list \<Rightarrow> 'b list call" where
  "mapM f [] = ret []"
| "mapM f (x # xs) = bind (f x) (\<lambda>y. bind (mapM f xs) (\<lambda>ys. ret (y # ys)))"

fun forEach :: "('a \<Rightarrow> unit call) \<Rightarrow> 'a list \<Rightarrow> unit call" where
  "forEach f [] = ret ()"
| "forEach f (x # xs) = bind (f x) (\<lambda>_. forEach f xs)"

text \<open>\<open>xs.filter(p)\<close> for a predicate with effects, which runs on every element in array order.\<close>

fun filterM :: "('a \<Rightarrow> bool call) \<Rightarrow> 'a list \<Rightarrow> 'a list call" where
  "filterM p [] = ret []"
| "filterM p (x # xs) =
     bind (p x) (\<lambda>b. bind (filterM p xs) (\<lambda>ys. ret (if b then x # ys else ys)))"

text \<open>\<open>Promise.all\<close> over settled answers: all results in request order, or an error.\<close>

fun all_settled :: "(error + 'a) list \<Rightarrow> error + 'a list" where
  "all_settled [] = Inr []"
| "all_settled (Inl e # rs) = Inl e"
| "all_settled (Inr x # rs) = (case all_settled rs of Inl e \<Rightarrow> Inl e | Inr xs \<Rightarrow> Inr (x # xs))"

subsection \<open>Helpers of the module\<close>

fun getLanguageFromType :: "ProjectFileType \<Rightarrow> string" where
  "getLanguageFromType Definition = ''typescript''"
| "getLanguageFromType TypeScript = ''typescript''"
| "getLanguageFromType Lib = ''typescript''"
| "getLanguageFromType HTML = ''html''"
| "getLanguageFromType JavaScript = ''javascript''"
| "getLanguageFromType Markdown = ''markdown''"
| "getLanguageFromType CSS = ''css''"
| "getLanguageFromType JSON = ''json''"
| "getLanguageFromType PlainText = ''plaintext''"
| "getLanguageFromType XML = ''xml''"

text \<open>
  Modelled from the spec: \<open>monaco.editor.createModel(text, mode, uri) -> handle\<close> of the
  editable buffer collaborator, which the spec gives no failure; it adds a model to the
  store and returns its handle.
\<close>

definition createModel :: "string \<Rightarrow> string \<Rightarrow> Uri \<Rightarrow> State \<Rightarrow> nat \<times> State" where
  "createModel txt language uri s =
     (length (models s),
      s\<lparr>models := models s @ [\<lparr>m_value = txt, m_language = language, m_uri = uri\<rparr>]\<rparr>)"

definition createMonacoModel :: "Collaborators \<Rightarrow> ProjectFile \<Rightarrow> State \<Rightarrow> nat \<times> State" where
  "createMonacoModel api file =
     createModel (pf_text file) (getLanguageFromType (pf_type file)) (Uri_file api (pf_name file))"

text \<open>\<open>model.getValue()\<close> and \<open>model.uri\<close> for a handle.\<close>

definition getValue :: "nat \<Rightarrow> State \<Rightarrow> string" where
  "getValue h s = m_value (models s ! h)"

definition uri :: "nat \<Rightarrow> State \<Rightarrow> Uri" where
  "uri h s = m_uri (models s ! h)"

text \<open>
  \<open>str.replace(pattern, replacement)\<close> for a string pattern, or a regular expression
  without the \<open>g\<close> flag that matches one fixed string: the first occurrence is replaced.
\<close>

fun replace :: "string \<Rightarrow> string \<Rightarrow> string \<Rightarrow> string" where
  "replace pat rep [] = (if pat = [] then rep else [])"
| "replace pat rep (c # cs) =
     (if prefix pat (c # cs) then rep @ drop (length pat) (c # cs)
      else c # replace pat rep cs)"

text \<open>\<open>find\<close> of @dojo/shim/array: the first element that satisfies \<open>P\<close>, here with its position.\<close>

primrec find_ref :: "('a \<Rightarrow> bool) \<Rightarrow> 'a list \<Rightarrow> (nat \<times> 'a) option" where
  "find_ref P [] = None"
| "find_ref P (x # xs) =
     (if P x then Some (0, x) else map_option (\<lambda>(i, y). (Suc i, y)) (find_ref P xs))"

text \<open>\<open>assign\<close> of @dojo/core/lang: every property of the source is set on the target.\<close>

fun assign :: "CompilerOptions \<Rightarrow> CompilerOptions \<Rightarrow> CompilerOptions" where
  "assign target [] = target"
| "assign target ((k, v) # kvs) =
     assign (if k \<in> fst ` set target
             then map (\<lambda>(k', v'). if k' = k then (k', v) else (k', v')) target
             else target @ [(k, v)]) kvs"

text \<open>Reading a property of an options object; a missing property reads \<open>undefined\<close>.\<close>

definition getProp :: "CompilerOptions \<Rightarrow> string \<Rightarrow> JsValue" where
  "getProp opts k = (case map_of opts k of None \<Rightarrow> JUndefined | Some v \<Rightarrow> v)"

subsection \<open>The methods of \<open>Project\<close>\<close>

definition loadBundle :: "Collaborators \<Rightarrow> string \<Rightarrow> unit call" where
  "loadBundle api filename s =
     (case request api filename of
        Inl e \<Rightarrow> (Inl e, s)
      | Inr b \<Rightarrow> (Inr (), s\<lparr>project := Some b\<rparr>))"

definition getProjectFileData :: "nat \<Rightarrow> State \<Rightarrow> ProjectFileData \<times> State" where
  "getProjectFileData file s =
     (case fileMap s file of
        None \<Rightarrow> (\<lparr>dirty = None, model = None\<rparr>,
                 s\<lparr>fileMap := (fileMap s)(file \<mapsto> \<lparr>dirty = None, model = None\<rparr>)\<rparr>)
      | Some d \<Rightarrow> (d, s))"

definition getFile :: "string \<Rightarrow> (nat \<times> ProjectFile) option call" where
  "getFile filename s =
     (case project s of
        None \<Rightarrow> (Inl NotLoadedError, s)
      | Some p \<Rightarrow> (Inr (find_ref (\<lambda>f. pf_name f = filename) (files p)), s))"

definition getFileModel :: "Collaborators \<Rightarrow> string \<Rightarrow> nat call" where
  "getFileModel api filename =
     bind (getFile filename) (\<lambda>file.
       case file of
         None \<Rightarrow> throw (UnknownFileError filename)
       | Some (r, f) \<Rightarrow> (\<lambda>s.
           let (fileData, s1) = getProjectFileData r s in
           case model fileData of
             Some h \<Rightarrow> (Inr h, s1)
           | None \<Rightarrow>
               let (h, s2) = createMonacoModel api f s1 in
               (Inr h, s2\<lparr>fileMap := (fileMap s2)(r \<mapsto> fileData\<lparr>model := Some h\<rparr>)\<rparr>)))"

definition isFileDirty :: "string \<Rightarrow> bool call" where
  "isFileDirty filename =
     bind (getFile filename) (\<lambda>file.
       case file of
         None \<Rightarrow> ret False
       | Some (r, f) \<Rightarrow> (\<lambda>s.
           let (fileData, s1) = getProjectFileData r s in
           (Inr (dirty fileData = Some True), s1)))"

text \<open>\<open>reset\<close> is the optional parameter; \<open>!reset\<close> is true for \<open>undefined\<close> and \<open>false\<close>.\<close>

definition setFileDirty :: "string \<Rightarrow> bool option \<Rightarrow> unit call" where
  "setFileDirty filename reset =
     bind (getFile filename) (\<lambda>file.
       case file of
         None \<Rightarrow> throw (UnknownFileError filename)
       | Some (r, f) \<Rightarrow> (\<lambda>s.
           let (fileData, s1) = getProjectFileData r s in
           (Inr (), s1\<lparr>fileMap := (fileMap s1)(r \<mapsto> fileData\<lparr>dirty := Some (reset \<noteq> Some True)\<rparr>)\<rparr>)))"

text \<open>The assignment \<open>file.text = v\<close> to the project file object at position \<open>r\<close>.\<close>

definition setText :: "nat \<Rightarrow> string \<Rightarrow> State \<Rightarrow> State" where
  "setText r v s =
     s\<lparr>project := map_option
          (\<lambda>p. p\<lparr>files := (files p)[r := (files p ! r)\<lparr>pf_text := v\<rparr>]\<rparr>) (project s)\<rparr>"

text \<open>
  \<open>_updateBundle\<close>: the filter runs over the whole array first, then \<open>forEach\<close> over
  the files it kept. Both callbacks read \<open>file.name\<close>, which never changes; the callback
  of \<open>forEach\<close> assigns to \<open>file.text\<close> of the object it was given, the one at
  position \<open>r\<close>.
\<close>

definition flushFile :: "Collaborators \<Rightarrow> nat \<times> ProjectFile \<Rightarrow> unit call" where
  "flushFile api = (\<lambda>(r, f).
     bind (getFileModel api (pf_name f)) (\<lambda>h.
     bind (\<lambda>s1. (Inr (), setText r (getValue h s1) s1)) (\<lambda>_.
     setFileDirty (pf_name f) (Some True))))"

definition updateBundle :: "Collaborators \<Rightarrow> unit call" where
  "updateBundle api s =
     (case project s of
        None \<Rightarrow> (Inr (), s)
      | Some p \<Rightarrow>
          bind (filterM (\<lambda>(r, f). isFileDirty (pf_name f)) (enumerate 0 (files p)))
            (forEach (flushFile api)) s)"

definition setEnvironmentFiles :: "Collaborators \<Rightarrow> unit call" where
  "setEnvironmentFiles api s =
     (case project s of
        None \<Rightarrow> (Inl TypeError, s)
      | Some p \<Rightarrow>
          forEach (\<lambda>f s1.
            case addExtraLib api (pf_text f)
                   ((if pf_type f = Lib then '''' else ''file:///'') @ pf_name f)
                   (typescriptDefaults s1) of
              Inl e \<Rightarrow> (Inl e, s1)
            | Inr d \<Rightarrow> (Inr (), s1\<lparr>typescriptDefaults := d\<rparr>)) (environmentFiles p) s)"

definition setProjectFiles :: "Collaborators \<Rightarrow> unit call" where
  "setProjectFiles api s =
     (case project s of
        None \<Rightarrow> (Inl TypeError, s)
      | Some p \<Rightarrow>
          forEach (\<lambda>f s1.
            if pf_type f = TypeScript \<or> pf_type f = Definition then
              (case addExtraLib api (pf_text f) (''file:///'' @ pf_name f) (typescriptDefaults s1) of
                 Inl e \<Rightarrow> (Inl e, s1)
               | Inr d \<Rightarrow> (Inr (), s1\<lparr>typescriptDefaults := d\<rparr>))
            else (Inr (), s1)) (files p) s)"

definition setTypeScriptEnvironment :: "Collaborators \<Rightarrow> unit call" where
  "setTypeScriptEnvironment api s =
     (case project s of
        None \<Rightarrow> (Inl TypeError, s)
      | Some p \<Rightarrow>
          let co = (case compilerOptions (tsconfig p) of None \<Rightarrow> [] | Some c \<Rightarrow> c);
              options = assign []
                [(''lib'', getProp co ''lib''),
                 (''noImplicitAny'', getProp co ''noImplicitAny''),
                 (''noImplicitThis'', getProp co ''noImplicitThis''),
                 (''noImplicitReturns'', getProp co ''noImplicitReturns''),
                 (''noLib'', getProp co ''noLib''),
                 (''noUnusedLocals'', getProp co ''noUnusedLocals''),
                 (''noUnusedParameters'', getProp co ''noUnusedParameters''),
                 (''strictNullChecks'', getProp co ''strictNullChecks''),
                 (''types'', getProp co ''types'')];
              options' = assign options
                [(''allowNonTsExtensions'', JBool True),
                 (''target'', JEnum ''ScriptTarget.ES5''),
                 (''module'', JEnum ''ModuleKind.UMD''),
                 (''moduleResolution'', JEnum ''ModuleResolutionKind.NodeJs'')]
          in (case setCompilerOptions api options' (typescriptDefaults s) of
                Inl e \<Rightarrow> (Inl e, s)
              | Inr d \<Rightarrow> (Inr (), s\<lparr>typescriptDefaults := d\<rparr>)))"

text \<open>
  \<open>emit\<close>. The models of the compiled files are created before the first \<open>await\<close>,
  those of the other files after the last one. The awaits are taken in one step: no other
  method runs between them.
\<close>

definition isCompiled :: "ProjectFile \<Rightarrow> bool" where
  "isCompiled f = (pf_type f = Definition \<or> pf_type f = TypeScript)"

text \<open>The callback of \<open>reduce\<close> over the emit outputs.\<close>

definition emitted :: "EmitFile list \<Rightarrow> EmitOutput \<Rightarrow> EmitFile list" where
  "emitted previous output =
     (if emitSkipped output then previous else previous @ outputFiles output)"

definition conform :: "EmitFile \<Rightarrow> EmitFile" where
  "conform f = \<lparr>ef_name = replace ''file://'' '''' (ef_name f), ef_text = ef_text f\<rparr>"

definition emitModel :: "State \<Rightarrow> nat \<Rightarrow> EmitFile" where
  "emitModel s h = \<lparr>ef_name = replace ''/./'' ''/'' (fsPath (uri h s)), ef_text = getValue h s\<rparr>"

text \<open>The two callbacks of \<open>map\<close> that ask for the model of a file.\<close>

definition modelUri :: "Collaborators \<Rightarrow> ProjectFile \<Rightarrow> Uri call" where
  "modelUri api f = bind (getFileModel api (pf_name f)) (\<lambda>h s1. (Inr (uri h s1), s1))"

definition modelOf :: "Collaborators \<Rightarrow> ProjectFile \<Rightarrow> nat call" where
  "modelOf api f = getFileModel api (pf_name f)"

definition emit :: "Collaborators \<Rightarrow> EmitFile list call" where
  "emit api s =
     (case project s of
        None \<Rightarrow> (Inl NotLoadedError, s)
      | Some p \<Rightarrow>
          bind (mapM (modelUri api) (filter isCompiled (files p))) (\<lambda>typescriptFileUris.
          bind (lift (getTypeScriptWorker api)) (\<lambda>worker.
          bind (lift (worker typescriptFileUris)) (\<lambda>client.
          bind (lift (all_settled (map (\<lambda>file. client (toString file)) typescriptFileUris))) (\<lambda>output.
          bind (mapM (modelOf api) (filter (\<lambda>f. \<not> isCompiled f) (files p))) (\<lambda>ms s1.
            (Inr (map conform (foldl emitted [] output) @ map (emitModel s1) ms), s1)))))) s)"

definition get :: "Collaborators \<Rightarrow> ProjectBundle option call" where
  "get api = bind (updateBundle api) (\<lambda>_ s. (Inr (project s), s))"

definition getFiles :: "ProjectFileType list \<Rightarrow> string list call" where
  "getFiles types s =
     (case project s of
        None \<Rightarrow> (Inl NotLoadedError, s)
      | Some p \<Rightarrow>
          (Inr (map pf_name
             (filter (\<lambda>f. if types \<noteq> [] then pf_type f \<in> set types else True) (files p))), s))"

definition includes' :: "string \<Rightarrow> State \<Rightarrow> bool" where
  "includes' filename s =
     (project s \<noteq> None \<and>
      (case fst (getFiles [] s) of Inl e \<Rightarrow> False | Inr names \<Rightarrow> filename \<in> set names))"

definition isLoaded :: "State \<Rightarrow> bool" where
  "isLoaded s = (project s \<noteq> None)"

definition load :: "Collaborators \<Rightarrow> string \<Rightarrow> unit call" where
  "load api filename s =
     (if project s \<noteq> None then (Inl AlreadyLoadedError, s)
      else
        bind (loadBundle api filename) (\<lambda>_.
        bind (setTypeScriptEnvironment api) (\<lambda>_.
        bind (setEnvironmentFiles api) (\<lambda>_.
        setProjectFiles api))) s)"

text \<open>
  The environment configuration of \<open>load\<close>: the three calls that follow
  \<open>await this._loadBundle(filename)\<close>.
\<close>

definition configure :: "Collaborators \<Rightarrow> unit call" where
  "configure api =
     bind (setTypeScriptEnvironment api) (\<lambda>_.
     bind (setEnvironmentFiles api) (\<lambda>_.
     setProjectFiles api))"

subsection \<open>The editing surface\<close>

text \<open>
  Modelled from the spec: the editing surface, whose code is not among the sources,
  "mutates buffers out-of-band": it sets the content of the model behind a handle.
\<close>

definition edit :: "nat \<Rightarrow> string \<Rightarrow> State \<Rightarrow> State" where
  "edit h v s = s\<lparr>models := (models s)[h := (models s ! h)\<lparr>m_value := v\<rparr>]\<rparr>"

subsection \<open>Well-formed states\<close>

text \<open>
  Every model handle kept in \<open>_fileMap\<close> is the handle of a model that was created.
  It holds of the initial state and every step of a session keeps it (\<open>reachable_wf\<close>
  below).
\<close>

definition wf :: "State \<Rightarrow> bool" where
  "wf s = (\<forall>r d h. fileMap s r = Some d \<and> model d = Some h \<longrightarrow> h < length (models s))"

subsection \<open>A concrete project, for the runs below\<close>

text \<open>
  A stand-in for \<open>monaco.Uri.file\<close> on a POSIX path: the path gets a leading slash,
  \<open>fsPath\<close> is the path, and the string form puts the scheme in front.
\<close>

definition posixUri :: "string \<Rightarrow> Uri" where
  "posixUri path =
     (let p = (if prefix ''/'' path then path else ''/'' @ path)
      in \<lparr>fsPath = p, toString = ''file://'' @ p\<rparr>)"

definition exampleBundle :: ProjectBundle where
  "exampleBundle =
     \<lparr>files =
        [\<lparr>pf_name = ''a.ts'', pf_text = ''let x=1;'', pf_type = TypeScript\<rparr>,
         \<lparr>pf_name = ''skip.ts'', pf_text = ''let y: number = true;'', pf_type = TypeScript\<rparr>,
         \<lparr>pf_name = ''readme.md'', pf_text = ''hello'', pf_type = Markdown\<rparr>,
         \<lparr>pf_name = ''docs/./x/./notes.txt'', pf_text = ''notes'', pf_type = PlainText\<rparr>],
      environmentFiles =
        [\<lparr>pf_name = ''lib.d.ts'', pf_text = ''declare var window: any;'', pf_type = Lib\<rparr>],
      tsconfig = \<lparr>compilerOptions = Some [(''noImplicitAny'', JBool True), (''target'', JStr ''es6'')]\<rparr>\<rparr>"

text \<open>A worker client that skips the emit of \<open>skip.ts\<close> and emits one file for any other uri.\<close>

definition exampleClient :: "string \<Rightarrow> error + EmitOutput" where
  "exampleClient u =
     Inr \<lparr>emitSkipped = (u = ''file:///skip.ts''),
          outputFiles = [\<lparr>ef_name = u @ ''.js'', ef_text = ''compiled''\<rparr>]\<rparr>"

definition exampleWorker :: "Uri list \<Rightarrow> error + (string \<Rightarrow> error + EmitOutput)" where
  "exampleWorker uris = Inr exampleClient"

definition exampleApi :: Collaborators where
  "exampleApi =
     \<lparr>Uri_file = posixUri,
      setCompilerOptions = (\<lambda>opts d. Inr (d\<lparr>td_options := Some opts\<rparr>)),
      addExtraLib = (\<lambda>txt path d. Inr (d\<lparr>td_extraLibs := td_extraLibs d @ [(txt, path)]\<rparr>)),
      getTypeScriptWorker = Inr exampleWorker,
      request = (\<lambda>filename. if filename = ''bundle.json'' then Inr exampleBundle
                              else Inl (ExternalError ''not found''))\<rparr>"

text \<open>The same collaborators, but the compiler context rejects the options.\<close>

definition rejectingApi :: Collaborators where
  "rejectingApi = exampleApi\<lparr>setCompilerOptions := (\<lambda>opts d. Inl (ExternalError ''rejected''))\<rparr>"

text \<open>The state after \<open>load('bundle.json')\<close> on a fresh instance.\<close>

definition loaded :: State where
  "loaded = snd (load exampleApi ''bundle.json'' initial)"

subsection \<open>Observers\<close>

text \<open>
  What the methods can see of \<open>_fileMap\<close>: the model and the dirty flag recorded for a
  project file. An entry without a member and no entry at all read the same.
\<close>

definition mdl :: "State \<Rightarrow> nat \<Rightarrow> nat option" where
  "mdl s r = (case fileMap s r of None \<Rightarrow> None | Some d \<Rightarrow> model d)"

definition dflag :: "State \<Rightarrow> nat \<Rightarrow> bool option" where
  "dflag s r = (case fileMap s r of None \<Rightarrow> None | Some d \<Rightarrow> dirty d)"

text \<open>The state after \<open>_getProjectFileData\<close> has been asked for the data of a file.\<close>

definition touch :: "nat \<Rightarrow> State \<Rightarrow> State" where
  "touch r s =
     (if fileMap s r = None
      then s\<lparr>fileMap := (fileMap s)(r \<mapsto> \<lparr>dirty = None, model = None\<rparr>)\<rparr> else s)"

text \<open>The model that \<open>createMonacoModel\<close> makes for a project file.\<close>

definition newModel :: "Collaborators \<Rightarrow> ProjectFile \<Rightarrow> IModel" where
  "newModel api f =
     \<lparr>m_value = pf_text f, m_language = getLanguageFromType (pf_type f),
      m_uri = Uri_file api (pf_name f)\<rparr>"

text \<open>
  The buffer of a file: the model that \<open>getFileModel(filename)\<close> returns in state
  \<open>s\<close>, with its current content; \<open>None\<close> when \<open>getFileModel\<close> throws.
\<close>

definition buffer :: "Collaborators \<Rightarrow> string \<Rightarrow> State \<Rightarrow> IModel option" where
  "buffer api filename s =
     (case getFileModel api filename s of
        (Inl e, s1) \<Rightarrow> None
      | (Inr h, s1) \<Rightarrow> Some (models s1 ! h))"

text \<open>A file is marked dirty when \<open>isFileDirty(filename)\<close> returns \<open>true\<close>.\<close>

definition dirtyN :: "string \<Rightarrow> State \<Rightarrow> bool" where
  "dirtyN filename s = (fst (isFileDirty filename s) = Inr True)"

text \<open>A project file with the content of its buffer as its text.\<close>

definition flushed :: "Collaborators \<Rightarrow> State \<Rightarrow> ProjectFile \<Rightarrow> ProjectFile" where
  "flushed api s f =
     (case buffer api (pf_name f) s of None \<Rightarrow> f | Some m \<Rightarrow> f\<lparr>pf_text := m_value m\<rparr>)"

text \<open>Two states that the methods cannot tell apart.\<close>

definition same_view :: "State \<Rightarrow> State \<Rightarrow> bool" where
  "same_view s s' \<longleftrightarrow>
     project s' = project s \<and> models s' = models s \<and>
     typescriptDefaults s' = typescriptDefaults s \<and> mdl s' = mdl s \<and> dflag s' = dflag s"

text \<open>The contribution of one emit output to the result of \<open>emit\<close>.\<close>

definition contribution :: "EmitOutput \<Rightarrow> EmitFile list" where
  "contribution output = (if emitSkipped output then [] else map conform (outputFiles output))"

text \<open>The emitted file of a buffer: the content of the model under its path.\<close>

definition emitBuffer :: "IModel \<Rightarrow> EmitFile" where
  "emitBuffer m = \<lparr>ef_name = replace ''/./'' ''/'' (fsPath (m_uri m)), ef_text = m_value m\<rparr>"

text \<open>The first project file with a given name, with its position.\<close>

abbreviation fr :: "ProjectBundle \<Rightarrow> string \<Rightarrow> (nat \<times> ProjectFile) option" where
  "fr q n \<equiv> find_ref (\<lambda>f. pf_name f = n) (files q)"

text \<open>
  The loaded example after \<open>setFileDirty('readme.md')\<close>, \<open>getFileModel('readme.md')\<close>
  and an edit of that buffer, whose handle is 0.
\<close>

definition edited :: State where
  "edited = edit 0 ''changed''
     (snd (getFileModel exampleApi ''readme.md'' (snd (setFileDirty ''readme.md'' None loaded))))"

subsection \<open>Sessions\<close>

text \<open>
  One step of a session: a call of a method that can change the state, with any
  arguments, any collaborators and any outcome, or an edit of a buffer by the editing
  surface. (\<open>getFile\<close>, \<open>getFiles\<close>, \<open>includes\<close> and \<open>isLoaded\<close> change nothing.)
\<close>

inductive step :: "State \<Rightarrow> State \<Rightarrow> bool" where
  call_load: "load api filename s = (r, s') \<Longrightarrow> step s s'"
| call_get: "get api s = (r, s') \<Longrightarrow> step s s'"
| call_getFileModel: "getFileModel api filename s = (r, s') \<Longrightarrow> step s s'"
| call_isFileDirty: "isFileDirty filename s = (r, s') \<Longrightarrow> step s s'"
| call_setFileDirty: "setFileDirty filename reset s = (r, s') \<Longrightarrow> step s s'"
| call_emit: "emit api s = (r, s') \<Longrightarrow> step s s'"
| buffer_edit: "step s (edit h v s)"

text \<open>
  A property of states that the methods called by \<open>get\<close> and \<open>emit\<close> keep,
  whatever their outcome.
\<close>

definition keeps :: "Collaborators \<Rightarrow> (State \<Rightarrow> bool) \<Rightarrow> bool" where
  "keeps api P \<longleftrightarrow>
     (\<forall>n s r s'. P s \<longrightarrow> getFileModel api n s = (r, s') \<longrightarrow> P s') \<and>
     (\<forall>n s r s'. P s \<longrightarrow> isFileDirty n s = (r, s') \<longrightarrow> P s') \<and>
     (\<forall>n x s r s'. P s \<longrightarrow> setFileDirty n x s = (r, s') \<longrightarrow> P s') \<and>
     (\<forall>i v s. P s \<longrightarrow> P (setText i v s))"

text \<open>
  The file at position \<open>r0\<close> of a loaded project with the file names of \<open>p\<close> has
  the model \<open>h\<close>.
\<close>

definition cached :: "ProjectBundle \<Rightarrow> nat \<Rightarrow> nat \<Rightarrow> State \<Rightarrow> bool" where
  "cached p r0 h s \<longleftrightarrow>
     (\<exists>q. project s = Some q \<and> map pf_name (files q) = map pf_name (files p)) \<and>
     mdl s r0 = Some h"

text \<open>A loaded project whose files have the names of the files of \<open>p\<close>, in order.\<close>

definition sameNames :: "ProjectBundle \<Rightarrow> State \<Rightarrow> bool" where
  "sameNames p s \<longleftrightarrow>
     (\<exists>q. project s = Some q \<and> map pf_name (files q) = map pf_name (files p))"

text \<open>
  Every model of the store of \<open>s\<close> is in the store of \<open>s'\<close>, under the same
  handle and with the same uri and language.
\<close>

definition sameModels :: "State \<Rightarrow> State \<Rightarrow> bool" where
  "sameModels s s' \<longleftrightarrow>
     length (models s) \<le> length (models s') \<and>
     (\<forall>i<length (models s).
        m_uri (models s' ! i) = m_uri (models s ! i) \<and>
        m_language (models s' ! i) = m_language (models s ! i))"

section \<open>Basic facts\<close>

lemmas monad_defs = bind_def ret_def throw_def lift_def

lemma loaded_eq:
  "loaded = \<lparr>project = Some exampleBundle, fileMap = Map.empty, models = [],
     typescriptDefaults =
       \<lparr>td_options = Some
           [(''lib'', JUndefined), (''noImplicitAny'', JBool True),
            (''noImplicitThis'', JUndefined),
            (''noImplicitReturns'', JUndefined), (''noLib'', JUndefined),
            (''noUnusedLocals'', JUndefined),
            (''noUnusedParameters'', JUndefined),
            (''strictNullChecks'', JUndefined), (''types'', JUndefined),
            (''allowNonTsExtensions'', JBool True),
            (''target'', JEnum ''ScriptTarget.ES5''),
            (''module'', JEnum ''ModuleKind.UMD''),
            (''moduleResolution'', JEnum ''ModuleResolutionKind.NodeJs'')],
        td_extraLibs =
            [(''declare var window: any;'', ''lib.d.ts''),
             (''let x=1;'', ''file:///a.ts''),
             (''let y: number = true;'', ''file:///skip.ts'')]\<rparr>\<rparr>"
  by (simp add: loaded_def load_def initial_def exampleApi_def loadBundle_def monad_defs
      setTypeScriptEnvironment_def setEnvironmentFiles_def setProjectFiles_def exampleBundle_def
      Let_def getProp_def)

lemma wf_initial: "wf initial"
  by (simp add: wf_def initial_def)

lemma wf_loaded: "wf loaded"
  by (simp add: wf_def loaded_eq)

lemmas run_defs = isFileDirty_def setFileDirty_def getFileModel_def getFile_def
  getProjectFileData_def createMonacoModel_def createModel_def bind_def ret_def throw_def
  lift_def edit_def get_def updateBundle_def flushFile_def setText_def getValue_def uri_def
  posixUri_def Let_def enumerate_eq_zip

lemma loaded_project: "project loaded = Some exampleBundle"
  by (simp add: loaded_eq)

lemma edited_eq:
  "edited = loaded\<lparr>
     fileMap := [2 \<mapsto> \<lparr>dirty = Some True, model = Some 0\<rparr>],
     models := [\<lparr>m_value = ''changed'', m_language = ''markdown'',
                 m_uri = \<lparr>fsPath = ''/readme.md'', toString = ''file:///readme.md''\<rparr>\<rparr>]\<rparr>"
  by (simp add: edited_def loaded_eq exampleBundle_def exampleApi_def run_defs numeral_2_eq_2)

lemma wf_edited: "wf edited"
  by (simp add: wf_def edited_eq)

lemma edited_project: "project edited = Some exampleBundle"
  by (simp add: edited_eq loaded_eq)

lemma find_ref_None: "find_ref P xs = None \<longleftrightarrow> (\<forall>x\<in>set xs. \<not> P x)"
  by (induction xs) auto

subsection \<open>The configuration of the environment leaves the bundle alone\<close>

lemma forEach_project:
  assumes "\<And>x s r s'. f x s = (r, s') \<Longrightarrow> project s' = project s"
  shows "forEach f xs s = (r, s') \<Longrightarrow> project s' = project s"
proof (induction xs arbitrary: s)
  case Nil
  then show ?case by (simp add: ret_def)
next
  case (Cons x xs)
  show ?case
  proof (cases "f x s")
    case (Pair a s1)
    then have p1: "project s1 = project s" using assms by blast
    show ?thesis
    proof (cases a)
      case (Inl e)
      with Pair Cons.prems p1 show ?thesis by (simp add: bind_def)
    next
      case (Inr u)
      with Pair Cons.prems have "forEach f xs s1 = (r, s')" by (simp add: bind_def)
      with Cons.IH p1 show ?thesis by simp
    qed
  qed
qed

lemma setTypeScriptEnvironment_project:
  "setTypeScriptEnvironment api s = (r, s') \<Longrightarrow> project s' = project s"
  by (auto simp: setTypeScriptEnvironment_def Let_def split: option.splits sum.splits)

lemma setEnvironmentFiles_project:
  assumes "setEnvironmentFiles api s = (r, s')"
  shows "project s' = project s"
proof (cases "project s")
  case None
  with assms show ?thesis by (simp add: setEnvironmentFiles_def)
next
  case (Some p)
  with assms have "forEach (\<lambda>f s1.
            case addExtraLib api (pf_text f)
                   ((if pf_type f = Lib then '''' else ''file:///'') @ pf_name f)
                   (typescriptDefaults s1) of
              Inl e \<Rightarrow> (Inl e, s1)
            | Inr d \<Rightarrow> (Inr (), s1\<lparr>typescriptDefaults := d\<rparr>)) (environmentFiles p) s = (r, s')"
    by (simp add: setEnvironmentFiles_def)
  then show ?thesis by (rule forEach_project [rotated]) (auto split: sum.splits)
qed

lemma setProjectFiles_project:
  assumes "setProjectFiles api s = (r, s')"
  shows "project s' = project s"
proof (cases "project s")
  case None
  with assms show ?thesis by (simp add: setProjectFiles_def)
next
  case (Some p)
  with assms have "forEach (\<lambda>f s1.
            if pf_type f = TypeScript \<or> pf_type f = Definition then
              (case addExtraLib api (pf_text f) (''file:///'' @ pf_name f) (typescriptDefaults s1) of
                 Inl e \<Rightarrow> (Inl e, s1)
               | Inr d \<Rightarrow> (Inr (), s1\<lparr>typescriptDefaults := d\<rparr>))
            else (Inr (), s1)) (files p) s = (r, s')"
    by (simp add: setProjectFiles_def)
  then show ?thesis by (rule forEach_project [rotated]) (auto split: sum.splits if_splits)
qed

lemma configure_project:
  assumes "configure api s = (r, s')"
  shows "project s' = project s"
proof -
  obtain r1 s1 where 1: "setTypeScriptEnvironment api s = (r1, s1)" by fastforce
  obtain r2 s2 where 2: "setEnvironmentFiles api s1 = (r2, s2)" by fastforce
  obtain r3 s3 where 3: "setProjectFiles api s2 = (r3, s3)" by fastforce
  have "project s1 = project s" "project s2 = project s1" "project s3 = project s2"
    using 1 2 3 setTypeScriptEnvironment_project setEnvironmentFiles_project
      setProjectFiles_project by blast+
  with assms 1 2 3 show ?thesis
    by (auto simp: configure_def bind_def split: sum.splits)
qed

lemma load_unloaded:
  "project s = None \<Longrightarrow> load api filename s =
     (case request api filename of Inl e \<Rightarrow> (Inl e, s)
      | Inr b \<Rightarrow> configure api (s\<lparr>project := Some b\<rparr>))"
  by (simp add: load_def configure_def loadBundle_def bind_def split: sum.splits)

lemma load_success_project:
  assumes "load api filename s = (Inr u, s')"
  shows "project s' \<noteq> None"
proof (cases "project s")
  case None
  with assms show ?thesis
    by (auto simp: load_unloaded split: sum.splits dest: configure_project)
next
  case (Some p)
  with assms show ?thesis by (simp add: load_def)
qed

section \<open>The methods on a loaded project\<close>

lemma find_ref_Some:
  "find_ref P xs = Some (i, x) \<Longrightarrow> i < length xs \<and> xs ! i = x \<and> P x \<and> (\<forall>j<i. \<not> P (xs ! j))"
proof (induction xs arbitrary: i)
  case Nil then show ?case by simp
next
  case (Cons y ys)
  show ?case
  proof (cases "P y")
    case True with Cons.prems show ?thesis by auto
  next
    case False
    with Cons.prems obtain k where k: "find_ref P ys = Some (k, x)" "i = Suc k"
      by (auto split: prod.splits)
    from Cons.IH [OF k(1)] k(2) False show ?thesis
      by (auto simp: less_Suc_eq_0_disj)
  qed
qed

lemma map_name_update:
  "pf_name x = pf_name (xs ! r) \<Longrightarrow> map pf_name (xs[r := x]) = map pf_name xs"
  by (induction xs arbitrary: r) (auto split: nat.splits)

lemma find_ref_ex: "x \<in> set xs \<Longrightarrow> P x \<Longrightarrow> \<exists>i y. find_ref P xs = Some (i, y)"
  by (induction xs) auto

lemma find_ref_names:
  "map pf_name ys = map pf_name xs \<Longrightarrow>
   find_ref (\<lambda>f. pf_name f = n) ys = map_option (\<lambda>(i, y). (i, ys ! i)) (find_ref (\<lambda>f. pf_name f = n) xs)"
proof (induction xs arbitrary: ys)
  case Nil then show ?case by simp
next
  case (Cons x xs)
  then obtain y ys' where ys: "ys = y # ys'" "pf_name y = pf_name x" "map pf_name ys' = map pf_name xs"
    by (cases ys) auto
  show ?case using Cons.IH [OF ys(3)] ys
    by (auto simp: option.map_comp comp_def split_def)
qed

lemma pfd_dirty_upd: "d\<lparr>dirty := v\<rparr> = \<lparr>dirty = v, model = model d\<rparr>"
  by (cases d) simp

lemma pfd_model_upd: "d\<lparr>model := v\<rparr> = \<lparr>dirty = dirty d, model = v\<rparr>"
  by (cases d) simp

lemma getFile_loaded: "project s = Some q \<Longrightarrow> getFile n s = (Inr (fr q n), s)"
  by (simp add: getFile_def)

lemma isFileDirty_loaded:
  "project s = Some q \<Longrightarrow> fr q n = Some (r, f) \<Longrightarrow>
   isFileDirty n s = (Inr (dflag s r = Some True), touch r s)"
  by (simp add: isFileDirty_def getFile_def bind_def getProjectFileData_def dflag_def touch_def
      split: option.splits)

lemma setFileDirty_loaded:
  "project s = Some q \<Longrightarrow> fr q n = Some (r, f) \<Longrightarrow>
   setFileDirty n reset s =
     (Inr (), s\<lparr>fileMap := (fileMap s)(r \<mapsto> \<lparr>dirty = Some (reset \<noteq> Some True), model = mdl s r\<rparr>)\<rparr>)"
  by (simp add: setFileDirty_def getFile_def bind_def getProjectFileData_def mdl_def
      pfd_dirty_upd split: option.splits)

lemma getFileModel_loaded:
  "project s = Some q \<Longrightarrow> fr q n = Some (r, f) \<Longrightarrow>
   getFileModel api n s =
     (case mdl s r of
        Some h \<Rightarrow> (Inr h, s)
      | None \<Rightarrow> (Inr (length (models s)),
          s\<lparr>models := models s @ [newModel api f],
            fileMap := (fileMap s)(r \<mapsto> \<lparr>dirty = dflag s r, model = Some (length (models s))\<rparr>)\<rparr>))"
  by (simp add: getFileModel_def getFile_def bind_def getProjectFileData_def mdl_def dflag_def
      createMonacoModel_def createModel_def newModel_def pfd_model_upd
      split: option.splits)

lemma getFileModel_unknown:
  "project s = Some q \<Longrightarrow> fr q n = None \<Longrightarrow> getFileModel api n s = (Inl (UnknownFileError n), s)"
  by (simp add: getFileModel_def getFile_def bind_def throw_def)

lemma buffer_loaded:
  "project s = Some q \<Longrightarrow>
   buffer api n s = (case fr q n of None \<Rightarrow> None
     | Some (r, f) \<Rightarrow> Some (case mdl s r of Some h \<Rightarrow> models s ! h | None \<Rightarrow> newModel api f))"
  by (auto simp: buffer_def getFileModel_loaded getFileModel_unknown split: option.splits)


lemma wf_mdl: "wf s \<longleftrightarrow> (\<forall>r h. mdl s r = Some h \<longrightarrow> h < length (models s))"
  by (auto simp: wf_def mdl_def split: option.splits)

lemma dirtyN_loaded:
  "project s = Some q \<Longrightarrow>
   dirtyN n s = (case fr q n of None \<Rightarrow> False | Some (r, f) \<Rightarrow> dflag s r = Some True)"
proof (cases "fr q n")
  case None
  assume "project s = Some q"
  with None show ?thesis
    by (simp add: dirtyN_def isFileDirty_def getFile_loaded bind_def ret_def)
next
  case (Some a)
  assume "project s = Some q"
  with Some show ?thesis
    by (cases a) (simp add: dirtyN_def isFileDirty_loaded)
qed

lemma fr_first:
  assumes "r < length (files q)"
  shows "\<exists>r0 f0. fr q (pf_name (files q ! r)) = Some (r0, f0)"
  using find_ref_ex [of "files q ! r" "files q" "\<lambda>f. pf_name f = pf_name (files q ! r)"] assms
  by simp

lemma fr_inj: "fr q n = Some (r, f) \<Longrightarrow> fr q n' = Some (r, f') \<Longrightarrow> n' = n"
  by (auto dest!: find_ref_Some)

text \<open>What one step of the flush does, in terms of the observers.\<close>

lemma flushFile_obs:
  assumes wf: "wf s" and q: "project s = Some q" and r: "r < length (files q)"
    and f: "pf_name f = pf_name (files q ! r)" and fr: "fr q (pf_name f) = Some (r0, f0)"
  shows "\<exists>s' h m. flushFile api (r, f) s = (Inr (), s') \<and>
     buffer api (pf_name f) s = Some m \<and>
     project s' = Some (q\<lparr>files := (files q)[r := (files q ! r)\<lparr>pf_text := m_value m\<rparr>]\<rparr>) \<and>
     prefix (models s) (models s') \<and> h < length (models s') \<and> models s' ! h = m \<and>
     mdl s' = (mdl s)(r0 \<mapsto> h) \<and> dflag s' = (dflag s)(r0 \<mapsto> False) \<and>
     typescriptDefaults s' = typescriptDefaults s"
proof -
  let ?n = "pf_name f"
  define q2 where "q2 v = q\<lparr>files := (files q)[r := (files q ! r)\<lparr>pf_text := v\<rparr>]\<rparr>" for v
  have names: "map pf_name (files (q2 v)) = map pf_name (files q)" for v
    by (simp add: q2_def map_name_update)
  have fr2: "fr (q2 v) ?n = Some (r0, files (q2 v) ! r0)" for v
    using find_ref_names [OF names, of ?n v] fr by simp
  show ?thesis
  proof (cases "mdl s r0")
    case (Some h)
    have g: "getFileModel api ?n s = (Inr h, s)"
      using getFileModel_loaded [OF q fr, of api] Some by simp
    have b: "buffer api ?n s = Some (models s ! h)"
      using buffer_loaded [OF q, of api ?n] fr Some by simp
    let ?s2 = "setText r (getValue h s) s"
    have p2: "project ?s2 = Some (q2 (getValue h s))"
      using q by (simp add: setText_def q2_def)
    have m2: "mdl ?s2 = mdl s" "dflag ?s2 = dflag s"
      by (auto simp: setText_def mdl_def dflag_def)
    have d: "setFileDirty ?n (Some True) ?s2 =
      (Inr (), ?s2\<lparr>fileMap := (fileMap ?s2)(r0 \<mapsto> \<lparr>dirty = Some False, model = mdl ?s2 r0\<rparr>)\<rparr>)"
      using setFileDirty_loaded [OF p2 fr2, of "Some True"] by simp
    have hl: "h < length (models s)" using wf Some by (simp add: wf_mdl)
    show ?thesis
      apply (rule exI [of _ "?s2\<lparr>fileMap := (fileMap ?s2)(r0 \<mapsto> \<lparr>dirty = Some False, model = mdl ?s2 r0\<rparr>)\<rparr>"])
      apply (rule exI [of _ h])
      apply (rule exI [of _ "models s ! h"])
      using g d b hl Some m2
      apply (simp add: flushFile_def bind_def)
      apply (auto simp: setText_def q getValue_def q2_def mdl_def dflag_def fun_eq_iff split: option.splits)
      done
  next
    case None
    let ?h = "length (models s)"
    let ?s1 = "s\<lparr>models := models s @ [newModel api f0],
            fileMap := (fileMap s)(r0 \<mapsto> \<lparr>dirty = dflag s r0, model = Some ?h\<rparr>)\<rparr>"
    have g: "getFileModel api ?n s = (Inr ?h, ?s1)"
      using getFileModel_loaded [OF q fr, of api] None by simp
    have b: "buffer api ?n s = Some (newModel api f0)"
      using buffer_loaded [OF q, of api ?n] fr None by simp
    let ?s2 = "setText r (getValue ?h ?s1) ?s1"
    have p2: "project ?s2 = Some (q2 (getValue ?h ?s1))"
      using q by (simp add: setText_def q2_def)
    have d: "setFileDirty ?n (Some True) ?s2 =
      (Inr (), ?s2\<lparr>fileMap := (fileMap ?s2)(r0 \<mapsto> \<lparr>dirty = Some False, model = mdl ?s2 r0\<rparr>)\<rparr>)"
      using setFileDirty_loaded [OF p2 fr2, of "Some True"] by simp
    show ?thesis
      apply (rule exI [of _ "?s2\<lparr>fileMap := (fileMap ?s2)(r0 \<mapsto> \<lparr>dirty = Some False, model = mdl ?s2 r0\<rparr>)\<rparr>"])
      apply (rule exI [of _ ?h])
      apply (rule exI [of _ "newModel api f0"])
      using g d b None
      apply (simp add: flushFile_def bind_def)
      apply (auto simp: setText_def q getValue_def q2_def mdl_def dflag_def fun_eq_iff split: option.splits)
      done
  qed
qed


lemma prefix_nth: "prefix xs ys \<Longrightarrow> i < length xs \<Longrightarrow> ys ! i = xs ! i"
  by (auto simp: prefix_def nth_append)

lemma flushFile_step:
  assumes wf: "wf s" and q: "project s = Some q" and r: "r < length (files q)"
    and f: "pf_name f = pf_name (files q ! r)"
  shows "\<exists>s' m. flushFile api (r, f) s = (Inr (), s') \<and> wf s' \<and>
     buffer api (pf_name f) s = Some m \<and>
     project s' = Some (q\<lparr>files := (files q)[r := (files q ! r)\<lparr>pf_text := m_value m\<rparr>]\<rparr>) \<and>
     (\<forall>n. buffer api n s' = buffer api n s) \<and>
     (\<forall>n. dirtyN n s' = (dirtyN n s \<and> n \<noteq> pf_name f)) \<and>
     typescriptDefaults s' = typescriptDefaults s \<and> prefix (models s) (models s')"
proof -
  obtain r0 f0 where fr: "fr q (pf_name f) = Some (r0, f0)"
    using fr_first [OF r] f by auto
  from flushFile_obs [OF wf q r f fr, of api] obtain s' h m where
    run: "flushFile api (r, f) s = (Inr (), s')" and
    b: "buffer api (pf_name f) s = Some m" and
    q': "project s' = Some (q\<lparr>files := (files q)[r := (files q ! r)\<lparr>pf_text := m_value m\<rparr>]\<rparr>)" and
    pre: "prefix (models s) (models s')" and h: "h < length (models s')" "models s' ! h = m" and
    m': "mdl s' = (mdl s)(r0 \<mapsto> h)" and d': "dflag s' = (dflag s)(r0 \<mapsto> False)" and
    t': "typescriptDefaults s' = typescriptDefaults s"
    by blast
  let ?q' = "q\<lparr>files := (files q)[r := (files q ! r)\<lparr>pf_text := m_value m\<rparr>]\<rparr>"
  let ?fs = "(files q)[r := (files q ! r)\<lparr>pf_text := m_value m\<rparr>]"
  have names: "map pf_name ?fs = map pf_name (files q)"
    by (simp add: map_name_update)
  have fr': "find_ref (\<lambda>f. pf_name f = n) ?fs = map_option (\<lambda>(i, y). (i, ?fs ! i)) (fr q n)" for n
    using find_ref_names [OF names] by simp
  have len: "length (models s) \<le> length (models s')"
    using pre by (rule prefix_length_le)
  have wf': "wf s'"
    unfolding wf_mdl
  proof (intro allI impI)
    fix r' h' assume a: "mdl s' r' = Some h'"
    show "h' < length (models s')"
    proof (cases "r' = r0")
      case True with a m' h show ?thesis by simp
    next
      case False
      with a m' have "mdl s r' = Some h'" by simp
      with wf have "h' < length (models s)" by (simp add: wf_mdl)
      with len show ?thesis by simp
    qed
  qed
  have other: "r' \<noteq> r" if "fr q n = Some (r', f')" "r' \<noteq> r0" for n r' f'
  proof
    assume "r' = r"
    with that(1) have "n = pf_name (files q ! r)" by (auto dest!: find_ref_Some)
    with f fr that(1) have "r' = r0" by simp
    with that(2) show False by simp
  qed
  have buf: "buffer api n s' = buffer api n s" for n
  proof (cases "fr q n")
    case None
    then show ?thesis by (simp add: buffer_loaded [OF q] buffer_loaded [OF q'] fr')
  next
    case (Some a)
    obtain r' f' where a: "a = (r', f')" by (cases a)
    show ?thesis
    proof (cases "r' = r0")
      case True
      with Some a fr have "n = pf_name f" by (auto dest: fr_inj)
      moreover have "buffer api n s' = Some m"
        using Some a True m' h by (simp add: buffer_loaded [OF q'] fr')
      ultimately show ?thesis using b by simp
    next
      case False
      have nr: "r' \<noteq> r" using other Some a False by blast
      have f': "files q ! r' = f'" using Some a by (auto dest!: find_ref_Some)
      show ?thesis
      proof (cases "mdl s r'")
        case None
        with Some a False m' nr f' show ?thesis
          by (simp add: buffer_loaded [OF q] buffer_loaded [OF q'] fr')
      next
        case (Some h')
        with wf have "h' < length (models s)" by (simp add: wf_mdl)
        with pre have "models s' ! h' = models s ! h'" by (simp add: prefix_nth)
        with Some \<open>fr q n = Some a\<close> a False m' show ?thesis
          by (simp add: buffer_loaded [OF q] buffer_loaded [OF q'] fr')
      qed
    qed
  qed
  have dn: "dirtyN n s' = (dirtyN n s \<and> n \<noteq> pf_name f)" for n
  proof (cases "fr q n")
    case None
    then show ?thesis by (simp add: dirtyN_loaded [OF q] dirtyN_loaded [OF q'] fr')
  next
    case (Some a)
    obtain r' f' where a: "a = (r', f')" by (cases a)
    show ?thesis
    proof (cases "r' = r0")
      case True
      with Some a fr have "n = pf_name f" by (auto dest: fr_inj)
      with Some a True d' show ?thesis
        by (simp add: dirtyN_loaded [OF q] dirtyN_loaded [OF q'] fr')
    next
      case False
      with Some a fr have "n \<noteq> pf_name f" by auto
      with Some a False d' show ?thesis
        by (simp add: dirtyN_loaded [OF q] dirtyN_loaded [OF q'] fr')
    qed
  qed
  from run wf' b q' buf dn t' pre show ?thesis by blast
qed


subsection \<open>States the methods cannot tell apart\<close>

lemma same_view_refl: "same_view s s"
  by (simp add: same_view_def)

lemma same_view_trans: "same_view s s1 \<Longrightarrow> same_view s1 s2 \<Longrightarrow> same_view s s2"
  by (simp add: same_view_def)

lemma same_view_touch: "same_view s (touch r s)"
  by (auto simp: same_view_def touch_def mdl_def dflag_def fun_eq_iff)

lemma same_view_wf: "same_view s s' \<Longrightarrow> wf s' = wf s"
  by (simp add: same_view_def wf_mdl)

lemma same_view_dirtyN:
  assumes "same_view s s'" and "project s = Some q"
  shows "dirtyN n s' = dirtyN n s"
proof -
  have "project s' = Some q" using assms by (simp add: same_view_def)
  then show ?thesis
    using assms by (auto simp: dirtyN_loaded same_view_def split: option.splits)
qed

lemma same_view_buffer:
  assumes "same_view s s'" and "project s = Some q"
  shows "buffer api n s' = buffer api n s"
proof -
  have "project s' = Some q" using assms by (simp add: same_view_def)
  then show ?thesis
    using assms by (auto simp: buffer_loaded same_view_def split: option.splits)
qed

lemma isFileDirty_view:
  assumes "project s = Some q"
  shows "\<exists>s'. isFileDirty n s = (Inr (dirtyN n s), s') \<and> same_view s s'"
proof (cases "fr q n")
  case None
  with assms have "isFileDirty n s = (Inr False, s)"
    by (simp add: isFileDirty_def getFile_loaded bind_def ret_def)
  moreover from this have "\<not> dirtyN n s" by (simp add: dirtyN_def)
  ultimately show ?thesis by (simp add: same_view_refl)
next
  case (Some a)
  obtain r f where a: "a = (r, f)" by (cases a)
  from isFileDirty_loaded [OF assms, of n r f] Some a
  have i: "isFileDirty n s = (Inr (dflag s r = Some True), touch r s)" by simp
  then have "dirtyN n s = (dflag s r = Some True)" by (simp add: dirtyN_def)
  with i show ?thesis by (simp add: same_view_touch)
qed

lemma filterM_dirty:
  assumes "project s = Some q"
  shows "\<exists>s'. filterM (\<lambda>(r, f). isFileDirty (pf_name f)) ks s =
            (Inr (filter (\<lambda>(r, f). dirtyN (pf_name f) s) ks), s') \<and> same_view s s'"
  using assms
proof (induction ks arbitrary: s)
  case Nil
  then show ?case by (simp add: ret_def same_view_refl)
next
  case (Cons k ks)
  obtain r f where k: "k = (r, f)" by (cases k)
  from isFileDirty_view [OF Cons.prems, of "pf_name f"] obtain s1 where
    1: "isFileDirty (pf_name f) s = (Inr (dirtyN (pf_name f) s), s1)" and v1: "same_view s s1"
    by blast
  have q1: "project s1 = Some q" using v1 Cons.prems by (simp add: same_view_def)
  from Cons.IH [OF q1] obtain s' where
    2: "filterM (\<lambda>(r, f). isFileDirty (pf_name f)) ks s1 =
          (Inr (filter (\<lambda>(r, f). dirtyN (pf_name f) s1) ks), s')" and v2: "same_view s1 s'"
    by blast
  have eq: "dirtyN n s1 = dirtyN n s" for n
    using same_view_dirtyN [OF v1 Cons.prems] .
  show ?case
    using 1 2 same_view_trans [OF v1 v2] by (simp add: k bind_def ret_def eq)
qed

subsection \<open>The flush of all dirty files\<close>

lemma flushed_name: "pf_name (flushed api s f) = pf_name f"
  by (simp add: flushed_def split: option.splits)

lemma flushed_type: "pf_type (flushed api s f) = pf_type f"
  by (simp add: flushed_def split: option.splits)

lemma forEach_flushFile:
  assumes "wf s" and "project s = Some q"
    and "\<forall>(r, f) \<in> set ks. r < length (files q) \<and> pf_name f = pf_name (files q ! r)"
    and "distinct (map fst ks)"
  shows "\<exists>s' fs. forEach (flushFile api) ks s = (Inr (), s') \<and> wf s' \<and>
     project s' = Some (q\<lparr>files := fs\<rparr>) \<and> length fs = length (files q) \<and>
     (\<forall>i<length (files q). fs ! i =
        (if i \<in> fst ` set ks then flushed api s (files q ! i) else files q ! i)) \<and>
     (\<forall>n. buffer api n s' = buffer api n s) \<and>
     (\<forall>n. dirtyN n s' = (dirtyN n s \<and> n \<notin> (\<lambda>(r, f). pf_name f) ` set ks)) \<and>
     typescriptDefaults s' = typescriptDefaults s \<and> prefix (models s) (models s')"
  using assms
proof (induction ks arbitrary: s q)
  case Nil
  show ?case
    apply (rule exI [of _ s], rule exI [of _ "files q"])
    using Nil.prems by (simp add: ret_def)
next
  case (Cons k ks)
  obtain r f where k: "k = (r, f)" by (cases k)
  have r: "r < length (files q)" and f: "pf_name f = pf_name (files q ! r)"
    using Cons.prems(3) k by auto
  from flushFile_step [OF Cons.prems(1,2) r f, of api] obtain s1 m where
    run1: "flushFile api (r, f) s = (Inr (), s1)" and wf1: "wf s1" and
    b: "buffer api (pf_name f) s = Some m" and
    q1: "project s1 = Some (q\<lparr>files := (files q)[r := (files q ! r)\<lparr>pf_text := m_value m\<rparr>]\<rparr>)" and
    buf1: "\<And>n. buffer api n s1 = buffer api n s" and
    dn1: "\<And>n. dirtyN n s1 = (dirtyN n s \<and> n \<noteq> pf_name f)" and
    t1: "typescriptDefaults s1 = typescriptDefaults s" and pre1: "prefix (models s) (models s1)"
    by blast
  let ?fs1 = "(files q)[r := (files q ! r)\<lparr>pf_text := m_value m\<rparr>]"
  let ?q1 = "q\<lparr>files := ?fs1\<rparr>"
  have fl: "(files q ! r)\<lparr>pf_text := m_value m\<rparr> = flushed api s (files q ! r)"
    using b f by (simp add: flushed_def)
  have prem3: "\<forall>(r', f') \<in> set ks. r' < length (files ?q1) \<and> pf_name f' = pf_name (files ?q1 ! r')"
  proof (clarsimp)
    fix a b assume "(a, b) \<in> set ks"
    with Cons.prems(3) have "a < length (files q)" "pf_name b = pf_name (files q ! a)" by auto
    then show "a < length (files q) \<and> pf_name b = pf_name (?fs1 ! a)"
      by (cases "a = r") simp_all
  qed
  have dist: "distinct (map fst ks)" and rnot: "r \<notin> fst ` set ks"
    using Cons.prems(4) k by auto
  from Cons.IH [OF wf1 q1 prem3 dist] obtain s' fs where
    run2: "forEach (flushFile api) ks s1 = (Inr (), s')" and wf': "wf s'" and
    q': "project s' = Some (?q1\<lparr>files := fs\<rparr>)" and len: "length fs = length (files ?q1)" and
    pt: "\<forall>i<length (files ?q1). fs ! i =
        (if i \<in> fst ` set ks then flushed api s1 (files ?q1 ! i) else files ?q1 ! i)" and
    buf2: "\<And>n. buffer api n s' = buffer api n s1" and
    dn2: "\<And>n. dirtyN n s' = (dirtyN n s1 \<and> n \<notin> (\<lambda>(r, f). pf_name f) ` set ks)" and
    t2: "typescriptDefaults s' = typescriptDefaults s1" and pre2: "prefix (models s1) (models s')"
    by blast
  have fl1: "flushed api s1 x = flushed api s x" for x
    by (simp add: flushed_def buf1)
  have pt': "\<forall>i<length (files q). fs ! i =
        (if i \<in> fst ` set (k # ks) then flushed api s (files q ! i) else files q ! i)"
  proof (intro allI impI)
    fix i assume i: "i < length (files q)"
    show "fs ! i = (if i \<in> fst ` set (k # ks) then flushed api s (files q ! i) else files q ! i)"
    proof (cases "i = r")
      case True
      with pt i rnot fl show ?thesis by (simp add: k)
    next
      case False
      with pt i show ?thesis by (simp add: k fl1)
    qed
  qed
  have "forEach (flushFile api) (k # ks) s = (Inr (), s')"
    using run1 run2 by (simp add: k bind_def)
  moreover have "project s' = Some (q\<lparr>files := fs\<rparr>)" using q' by simp
  moreover have "length fs = length (files q)" using len by simp
  moreover have "\<forall>n. buffer api n s' = buffer api n s" using buf1 buf2 by simp
  moreover have "\<forall>n. dirtyN n s' = (dirtyN n s \<and> n \<notin> (\<lambda>(r, f). pf_name f) ` set (k # ks))"
    using dn1 dn2 by (auto simp: k)
  moreover have "typescriptDefaults s' = typescriptDefaults s" using t1 t2 by simp
  moreover have "prefix (models s) (models s')" using pre1 pre2 by (rule prefix_order.trans)
  ultimately show ?case using wf' pt' by blast
qed


lemma dirtyN_file:
  assumes "project s = Some q" and "dirtyN n s"
  shows "\<exists>r. r < length (files q) \<and> pf_name (files q ! r) = n"
proof (cases "fr q n")
  case None
  with assms show ?thesis by (simp add: dirtyN_loaded)
next
  case (Some a)
  then show ?thesis by (cases a) (auto dest!: find_ref_Some)
qed

lemma updateBundle_loaded:
  assumes wf: "wf s" and q: "project s = Some q"
  shows "\<exists>s'. updateBundle api s = (Inr (), s') \<and> wf s' \<and>
     project s' = Some (q\<lparr>files :=
        map (\<lambda>f. if dirtyN (pf_name f) s then flushed api s f else f) (files q)\<rparr>) \<and>
     (\<forall>n. buffer api n s' = buffer api n s) \<and> (\<forall>n. \<not> dirtyN n s') \<and>
     typescriptDefaults s' = typescriptDefaults s \<and> prefix (models s) (models s')"
proof -
  let ?ks = "filter (\<lambda>(r, f). dirtyN (pf_name f) s) (enumerate 0 (files q))"
  from filterM_dirty [OF q, of "enumerate 0 (files q)"] obtain s0 where
    fil: "filterM (\<lambda>(r, f). isFileDirty (pf_name f)) (enumerate 0 (files q)) s = (Inr ?ks, s0)"
    and v: "same_view s s0"
    by blast
  have wf0: "wf s0" using v wf by (simp add: same_view_wf)
  have q0: "project s0 = Some q" using v q by (simp add: same_view_def)
  have mem: "(r, f) \<in> set ?ks \<longleftrightarrow>
      r < length (files q) \<and> f = files q ! r \<and> dirtyN (pf_name f) s" for r f
    by (auto simp: in_set_enumerate_eq)
  have p3: "\<forall>(r, f) \<in> set ?ks. r < length (files q) \<and> pf_name f = pf_name (files q ! r)"
    using mem by auto
  have dist: "distinct (map fst ?ks)"
    by (rule distinct_map_filter) (simp add: map_fst_enumerate)
  from forEach_flushFile [OF wf0 q0 p3 dist, of api] obtain s' fs where
    run: "forEach (flushFile api) ?ks s0 = (Inr (), s')" and wf': "wf s'" and
    q': "project s' = Some (q\<lparr>files := fs\<rparr>)" and len: "length fs = length (files q)" and
    pt: "\<forall>i<length (files q). fs ! i =
        (if i \<in> fst ` set ?ks then flushed api s0 (files q ! i) else files q ! i)" and
    buf: "\<And>n. buffer api n s' = buffer api n s0" and
    dn: "\<And>n. dirtyN n s' = (dirtyN n s0 \<and> n \<notin> (\<lambda>(r, f). pf_name f) ` set ?ks)" and
    t: "typescriptDefaults s' = typescriptDefaults s0" and pre: "prefix (models s0) (models s')"
    by blast
  have buf0: "buffer api n s0 = buffer api n s" for n
    using same_view_buffer [OF v q] .
  have dn0: "dirtyN n s0 = dirtyN n s" for n
    using same_view_dirtyN [OF v q] .
  have fl0: "flushed api s0 x = flushed api s x" for x
    by (simp add: flushed_def buf0)
  have inks: "i \<in> fst ` set ?ks \<longleftrightarrow> dirtyN (pf_name (files q ! i)) s" if "i < length (files q)" for i
  proof
    assume "i \<in> fst ` set ?ks"
    then obtain f where "(i, f) \<in> set ?ks" by force
    with mem [of i f] have "f = files q ! i \<and> dirtyN (pf_name f) s" by blast
    then show "dirtyN (pf_name (files q ! i)) s" by blast
  next
    assume "dirtyN (pf_name (files q ! i)) s"
    with that have "(i, files q ! i) \<in> set ?ks" using mem [of i "files q ! i"] by blast
    then show "i \<in> fst ` set ?ks" by force
  qed
  have fs: "fs = map (\<lambda>f. if dirtyN (pf_name f) s then flushed api s f else f) (files q)"
  proof (rule nth_equalityI)
    show "length fs = length (map (\<lambda>f. if dirtyN (pf_name f) s then flushed api s f else f) (files q))"
      using len by simp
  next
    fix i assume "i < length fs"
    with len have i: "i < length (files q)" by simp
    with pt inks [OF i] show "fs ! i =
        map (\<lambda>f. if dirtyN (pf_name f) s then flushed api s f else f) (files q) ! i"
      by (simp add: fl0)
  qed
  have clean: "\<not> dirtyN n s'" for n
  proof
    assume d: "dirtyN n s'"
    with dn dn0 have d0: "dirtyN n s" and nin: "n \<notin> (\<lambda>(r, f). pf_name f) ` set ?ks" by auto
    from dirtyN_file [OF q d0] obtain r where r: "r < length (files q)" "pf_name (files q ! r) = n"
      by blast
    with d0 have "(r, files q ! r) \<in> set ?ks" using mem [of r "files q ! r"] by blast
    with r(2) have "n \<in> (\<lambda>(r, f). pf_name f) ` set ?ks" by force
    with nin show False by simp
  qed
  have "updateBundle api s = (Inr (), s')"
    using q fil run by (simp add: updateBundle_def bind_def)
  moreover have "prefix (models s) (models s')" using pre v by (simp add: same_view_def)
  moreover have "typescriptDefaults s' = typescriptDefaults s" using t v by (simp add: same_view_def)
  ultimately show ?thesis using wf' q' fs buf buf0 clean by auto
qed


subsection \<open>Asking for the model of a file\<close>

lemma buffer_extend:
  assumes wf: "wf s" and q: "project s = Some q" and q': "project s' = Some q"
    and pre: "prefix (models s) (models s')" and m': "mdl s' = (mdl s)(r0 \<mapsto> h)"
    and fr: "fr q n = Some (r0, f0)" and b: "buffer api n s = Some (models s' ! h)"
  shows "buffer api n' s' = buffer api n' s"
proof (cases "fr q n'")
  case None
  then show ?thesis by (simp add: buffer_loaded [OF q] buffer_loaded [OF q'])
next
  case (Some a)
  obtain r' f' where a: "a = (r', f')" by (cases a)
  show ?thesis
  proof (cases "r' = r0")
    case True
    with Some a fr have "n' = n" by (auto dest: fr_inj)
    moreover have "buffer api n' s' = Some (models s' ! h)"
      using Some a True m' by (simp add: buffer_loaded [OF q'])
    ultimately show ?thesis using b by simp
  next
    case False
    show ?thesis
    proof (cases "mdl s r'")
      case None
      with Some a False m' show ?thesis
        by (simp add: buffer_loaded [OF q] buffer_loaded [OF q'])
    next
      case (Some h')
      with wf have "h' < length (models s)" by (simp add: wf_mdl)
      with pre have "models s' ! h' = models s ! h'" by (simp add: prefix_nth)
      with Some \<open>fr q n' = Some a\<close> a False m' show ?thesis
        by (simp add: buffer_loaded [OF q] buffer_loaded [OF q'])
    qed
  qed
qed

lemma getFileModel_step:
  assumes wf: "wf s" and q: "project s = Some q" and fr: "fr q n = Some (r0, f0)"
  shows "\<exists>h s'. getFileModel api n s = (Inr h, s') \<and> wf s' \<and> project s' = Some q \<and>
     h < length (models s') \<and> buffer api n s = Some (models s' ! h) \<and>
     mdl s' = (mdl s)(r0 \<mapsto> h) \<and> dflag s' = dflag s \<and>
     prefix (models s) (models s') \<and> typescriptDefaults s' = typescriptDefaults s \<and>
     (\<forall>n'. buffer api n' s' = buffer api n' s)"
proof -
  have "\<exists>h s'. getFileModel api n s = (Inr h, s') \<and> project s' = Some q \<and>
     h < length (models s') \<and> buffer api n s = Some (models s' ! h) \<and>
     mdl s' = (mdl s)(r0 \<mapsto> h) \<and> dflag s' = dflag s \<and>
     prefix (models s) (models s') \<and> typescriptDefaults s' = typescriptDefaults s"
  proof (cases "mdl s r0")
    case None
    show ?thesis
      using getFileModel_loaded [OF q fr, of api] buffer_loaded [OF q, of api n] fr None q
      by (auto simp: mdl_def dflag_def fun_eq_iff split: option.splits)
  next
    case (Some h)
    with wf have "h < length (models s)" by (simp add: wf_mdl)
    then show ?thesis
      using getFileModel_loaded [OF q fr, of api] buffer_loaded [OF q, of api n] fr Some q
      by (auto simp: fun_eq_iff)
  qed
  then obtain h s' where
    run: "getFileModel api n s = (Inr h, s')" and q': "project s' = Some q" and
    h: "h < length (models s')" and b: "buffer api n s = Some (models s' ! h)" and
    m': "mdl s' = (mdl s)(r0 \<mapsto> h)" and d': "dflag s' = dflag s" and
    pre: "prefix (models s) (models s')" and t: "typescriptDefaults s' = typescriptDefaults s"
    by blast
  have len: "length (models s) \<le> length (models s')"
    using pre by (rule prefix_length_le)
  have wf': "wf s'"
    unfolding wf_mdl
  proof (intro allI impI)
    fix r' h' assume a: "mdl s' r' = Some h'"
    show "h' < length (models s')"
    proof (cases "r' = r0")
      case True with a m' h show ?thesis by simp
    next
      case False
      with a m' have "mdl s r' = Some h'" by simp
      with wf have "h' < length (models s)" by (simp add: wf_mdl)
      with len show ?thesis by simp
    qed
  qed
  have "\<forall>n'. buffer api n' s' = buffer api n' s"
    using buffer_extend [OF wf q q' pre m' fr b] by simp
  with run wf' q' h b m' d' pre t show ?thesis by blast
qed

lemma getFileModel_again:
  assumes "project s = Some q" and "fr q n = Some (r0, f0)" and "mdl s r0 = Some h"
  shows "getFileModel api n s = (Inr h, s)"
  using getFileModel_loaded [OF assms(1,2), of api] assms(3) by simp

lemma fr_known:
  assumes "n \<in> set (map pf_name (files q))"
  shows "\<exists>r0 f0. fr q n = Some (r0, f0)"
proof -
  from assms obtain x where "x \<in> set (files q)" "pf_name x = n" by auto
  then show ?thesis using find_ref_ex [of x "files q" "\<lambda>f. pf_name f = n"] by simp
qed

lemma getFileModel_twice:
  assumes q: "project s = Some q" and fr: "fr q n = Some (r0, f0)"
  shows "\<exists>h s1. getFileModel api n s = (Inr h, s1) \<and> project s1 = Some q \<and> mdl s1 r0 = Some h"
proof (cases "mdl s r0")
  case None
  then show ?thesis
    using getFileModel_loaded [OF q fr, of api] q by (simp add: mdl_def)
next
  case (Some h)
  then show ?thesis
    using getFileModel_loaded [OF q fr, of api] q by simp
qed

subsection \<open>get\<close>

lemma get_loaded:
  assumes wf: "wf s" and q: "project s = Some q"
  shows "\<exists>s'. get api s = (Inr (project s'), s') \<and> wf s' \<and>
     project s' = Some (q\<lparr>files :=
        map (\<lambda>f. if dirtyN (pf_name f) s then flushed api s f else f) (files q)\<rparr>) \<and>
     (\<forall>n. buffer api n s' = buffer api n s) \<and> (\<forall>n. \<not> dirtyN n s') \<and>
     typescriptDefaults s' = typescriptDefaults s \<and> prefix (models s) (models s')"
proof -
  from updateBundle_loaded [OF wf q, of api] obtain s' where
    "updateBundle api s = (Inr (), s')" and
    rest: "wf s' \<and>
     project s' = Some (q\<lparr>files :=
        map (\<lambda>f. if dirtyN (pf_name f) s then flushed api s f else f) (files q)\<rparr>) \<and>
     (\<forall>n. buffer api n s' = buffer api n s) \<and> (\<forall>n. \<not> dirtyN n s') \<and>
     typescriptDefaults s' = typescriptDefaults s \<and> prefix (models s) (models s')"
    by blast
  then have "get api s = (Inr (project s'), s')" by (simp add: get_def bind_def)
  with rest show ?thesis by blast
qed

lemma get_unloaded: "project s = None \<Longrightarrow> get api s = (Inr None, s)"
  by (simp add: get_def updateBundle_def bind_def)

lemma buffer_file:
  assumes "project s = Some q" and "i < length (files q)"
  shows "\<exists>m. buffer api (pf_name (files q ! i)) s = Some m"
proof -
  from fr_first [OF assms(2)] obtain r0 f0 where
    "fr q (pf_name (files q ! i)) = Some (r0, f0)" by blast
  then show ?thesis by (simp add: buffer_loaded [OF assms(1)])
qed

lemma sameNames_known:
  assumes "sameNames p s" and "n \<in> set (map pf_name (files p))"
  obtains q r0 f0 where "project s = Some q" and "fr q n = Some (r0, f0)"
proof -
  from assms(1) obtain q where q: "project s = Some q"
    "map pf_name (files q) = map pf_name (files p)"
    by (auto simp: sameNames_def)
  with assms(2) have "n \<in> set (map pf_name (files q))" by simp
  from fr_known [OF this] q(1) that show ?thesis by blast
qed

lemma getFileModel_ok:
  assumes "sameNames p s" and "n \<in> set (map pf_name (files p))"
  shows "\<exists>h s'. getFileModel api n s = (Inr h, s') \<and> sameNames p s'"
proof -
  from assms obtain q r0 f0 where q: "project s = Some q" and fr: "fr q n = Some (r0, f0)"
    by (rule sameNames_known)
  from getFileModel_twice [OF q fr, of api] assms(1) q show ?thesis
    by (auto simp: sameNames_def)
qed

lemma setFileDirty_ok:
  assumes "sameNames p s" and "n \<in> set (map pf_name (files p))"
  shows "\<exists>s'. setFileDirty n x s = (Inr (), s') \<and> sameNames p s'"
proof -
  from assms obtain q r0 f0 where q: "project s = Some q" and fr: "fr q n = Some (r0, f0)"
    by (rule sameNames_known)
  from setFileDirty_loaded [OF q fr, of x] assms(1) q show ?thesis
    by (auto simp: sameNames_def)
qed

lemma setText_sameNames: "sameNames p s \<Longrightarrow> sameNames p (setText i v s)"
  by (auto simp: sameNames_def setText_def map_name_update)

lemma flushFile_ok:
  assumes "sameNames p s" and "pf_name f \<in> set (map pf_name (files p))"
  shows "\<exists>s'. flushFile api (r, f) s = (Inr (), s') \<and> sameNames p s'"
proof -
  from getFileModel_ok [OF assms, of api] obtain h s1 where
    1: "getFileModel api (pf_name f) s = (Inr h, s1)" and n1: "sameNames p s1" by blast
  let ?s2 = "setText r (getValue h s1) s1"
  have n2: "sameNames p ?s2" using n1 by (rule setText_sameNames)
  from setFileDirty_ok [OF n2 assms(2), of "Some True"] obtain s3 where
    3: "setFileDirty (pf_name f) (Some True) ?s2 = (Inr (), s3)" and n3: "sameNames p s3" by blast
  from 1 3 have "flushFile api (r, f) s = (Inr (), s3)"
    by (simp add: flushFile_def bind_def)
  with n3 show ?thesis by blast
qed

lemma forEach_flushFile_ok:
  assumes "sameNames p s" and "\<forall>(r, f) \<in> set ks. pf_name f \<in> set (map pf_name (files p))"
  shows "\<exists>s'. forEach (flushFile api) ks s = (Inr (), s') \<and> sameNames p s'"
  using assms
proof (induction ks arbitrary: s)
  case Nil
  then show ?case by (simp add: ret_def)
next
  case (Cons k ks)
  obtain r f where k: "k = (r, f)" by (cases k)
  with Cons.prems(2) have f: "pf_name f \<in> set (map pf_name (files p))"
    and rest: "\<forall>(r, f) \<in> set ks. pf_name f \<in> set (map pf_name (files p))"
    by auto
  from flushFile_ok [OF Cons.prems(1) f, of api r] obtain s1 where
    1: "flushFile api (r, f) s = (Inr (), s1)" and n1: "sameNames p s1" by blast
  from Cons.IH [OF n1 rest] obtain s' where
    2: "forEach (flushFile api) ks s1 = (Inr (), s')" and n': "sameNames p s'" by blast
  from 1 2 have "forEach (flushFile api) (k # ks) s = (Inr (), s')"
    by (simp add: k bind_def)
  with n' show ?case by blast
qed

lemma get_succeeds:
  assumes p: "project s = Some p"
  shows "\<exists>b s'. get api s = (Inr (Some b), s') \<and> project s' = Some b"
proof -
  let ?ks = "filter (\<lambda>(r, f). dirtyN (pf_name f) s) (enumerate 0 (files p))"
  from filterM_dirty [OF p, of "enumerate 0 (files p)"] obtain s0 where
    fil: "filterM (\<lambda>(r, f). isFileDirty (pf_name f)) (enumerate 0 (files p)) s = (Inr ?ks, s0)"
    and v: "same_view s s0"
    by blast
  have n0: "sameNames p s0" using v p by (simp add: sameNames_def same_view_def)
  have names: "\<forall>(r, f) \<in> set ?ks. pf_name f \<in> set (map pf_name (files p))"
    by (auto simp: in_set_enumerate_eq)
  from forEach_flushFile_ok [OF n0 names, of api] obtain s' where
    run: "forEach (flushFile api) ?ks s0 = (Inr (), s')" and n': "sameNames p s'" by blast
  from n' obtain b where b: "project s' = Some b" by (auto simp: sameNames_def)
  from p fil run have "updateBundle api s = (Inr (), s')"
    by (simp add: updateBundle_def bind_def)
  with b have "get api s = (Inr (Some b), s')" by (simp add: get_def bind_def)
  with b show ?thesis by blast
qed

text \<open>
  C8. \<open>get()\<close> never fails. When no project is loaded it returns \<open>undefined\<close> and the
  state is as before. When a project is loaded it returns the current bundle, the one
  stored after the call; in a well-formed state that bundle has the files of before, and
  every file that was marked dirty has for text the content of its buffer, which the
  buffer keeps.
\<close>

theorem get_never_fails:
  "(project s = None \<longrightarrow> get api s = (Inr None, s)) \<and>
   (project s = Some p \<longrightarrow>
      (\<exists>b s'. get api s = (Inr (Some b), s') \<and> project s' = Some b \<and>
         (wf s \<longrightarrow> length (files b) = length (files p) \<and>
           (\<forall>i<length (files p). dirtyN (pf_name (files p ! i)) s \<longrightarrow>
              (\<exists>m. buffer api (pf_name (files p ! i)) s = Some m \<and>
                   buffer api (pf_name (files p ! i)) s' = Some m \<and>
                   pf_text (files b ! i) = m_value m)))))"
proof (intro conjI impI)
  assume "project s = None"
  then show "get api s = (Inr None, s)" by (rule get_unloaded)
next
  assume p: "project s = Some p"
  from get_succeeds [OF p, of api] obtain b s' where
    g: "get api s = (Inr (Some b), s')" and b: "project s' = Some b" by blast
  have "length (files b) = length (files p) \<and>
           (\<forall>i<length (files p). dirtyN (pf_name (files p ! i)) s \<longrightarrow>
              (\<exists>m. buffer api (pf_name (files p ! i)) s = Some m \<and>
                   buffer api (pf_name (files p ! i)) s' = Some m \<and>
                   pf_text (files b ! i) = m_value m))" if wf: "wf s"
  proof -
    let ?b = "p\<lparr>files := map (\<lambda>f. if dirtyN (pf_name f) s then flushed api s f else f) (files p)\<rparr>"
    from get_loaded [OF wf p, of api] g b have b': "b = ?b" and
      buf: "\<And>n. buffer api n s' = buffer api n s"
      by auto
    have "\<exists>m. buffer api (pf_name (files p ! i)) s = Some m \<and>
             buffer api (pf_name (files p ! i)) s' = Some m \<and>
             pf_text (files ?b ! i) = m_value m"
      if i: "i < length (files p)" and d: "dirtyN (pf_name (files p ! i)) s" for i
    proof -
      from buffer_file [OF p i, of api] obtain m where
        m: "buffer api (pf_name (files p ! i)) s = Some m" by blast
      with i d have "pf_text (files ?b ! i) = m_value m" by (simp add: flushed_def)
      with m buf show ?thesis by simp
    qed
    then show ?thesis unfolding b' by simp
  qed
  with g b show "\<exists>b s'. get api s = (Inr (Some b), s') \<and> project s' = Some b \<and>
         (wf s \<longrightarrow> length (files b) = length (files p) \<and>
           (\<forall>i<length (files p). dirtyN (pf_name (files p ! i)) s \<longrightarrow>
              (\<exists>m. buffer api (pf_name (files p ! i)) s = Some m \<and>
                   buffer api (pf_name (files p ! i)) s' = Some m \<and>
                   pf_text (files b ! i) = m_value m)))"
    by blast
qed

theorem get_never_fails_witness:
  "project initial = None \<and> get exampleApi initial = (Inr None, initial) \<and>
   wf edited \<and> project edited = Some exampleBundle \<and>
   dirtyN (pf_name (files exampleBundle ! 2)) edited \<and>
   (\<exists>b s'. get exampleApi edited = (Inr (Some b), s') \<and> project s' = Some b \<and>
       length (files b) = length (files exampleBundle) \<and>
       (\<exists>m. buffer exampleApi ''readme.md'' edited = Some m \<and>
            buffer exampleApi ''readme.md'' s' = Some m \<and>
            pf_text (files b ! 2) = m_value m \<and> m_value m = ''changed''))"
proof -
  have a: "project initial = None" by (simp add: initial_def)
  from get_never_fails [of initial exampleApi exampleBundle] a
  have 1: "get exampleApi initial = (Inr None, initial)" by blast
  have d: "dirtyN (pf_name (files exampleBundle ! 2)) edited"
    by (simp add: dirtyN_def edited_eq loaded_eq exampleBundle_def run_defs)
  have n: "pf_name (files exampleBundle ! 2) = ''readme.md''" "(2::nat) < length (files exampleBundle)"
    by (simp_all add: exampleBundle_def)
  have v: "buffer exampleApi ''readme.md'' edited = Some m \<Longrightarrow> m_value m = ''changed''" for m
    by (auto simp: buffer_def edited_eq loaded_eq exampleBundle_def run_defs)
  from get_never_fails [of edited exampleApi exampleBundle] wf_edited edited_project
  obtain b s' where g: "get exampleApi edited = (Inr (Some b), s')" "project s' = Some b"
    "length (files b) = length (files exampleBundle)"
    and fl: "\<forall>i<length (files exampleBundle). dirtyN (pf_name (files exampleBundle ! i)) edited \<longrightarrow>
              (\<exists>m. buffer exampleApi (pf_name (files exampleBundle ! i)) edited = Some m \<and>
                   buffer exampleApi (pf_name (files exampleBundle ! i)) s' = Some m \<and>
                   pf_text (files b ! i) = m_value m)"
    by blast
  from fl d n obtain m where "buffer exampleApi ''readme.md'' edited = Some m"
    "buffer exampleApi ''readme.md'' s' = Some m" "pf_text (files b ! 2) = m_value m"
    by (metis (no_types, lifting))
  with v g a 1 wf_edited edited_project d show ?thesis by blast
qed

text \<open>
  C10. For every loaded project, \<open>get()\<close> changes of the bundle only the text of the
  files that are marked dirty: the names and the kinds of the files, in sequence order,
  the environment files and the compiler configuration (that of the bundle and that of
  the TypeScript defaults) are as before, and every file that is not marked dirty is as
  before, its text included.
\<close>

theorem get_frame:
  assumes "wf s" and "project s = Some p"
  shows "\<exists>b s'. get api s = (Inr (Some b), s') \<and> project s' = Some b \<and>
      map pf_name (files b) = map pf_name (files p) \<and>
      map pf_type (files b) = map pf_type (files p) \<and>
      environmentFiles b = environmentFiles p \<and> tsconfig b = tsconfig p \<and>
      typescriptDefaults s' = typescriptDefaults s \<and>
      (\<forall>i<length (files p). \<not> dirtyN (pf_name (files p ! i)) s \<longrightarrow> files b ! i = files p ! i)"
proof -
  let ?b = "p\<lparr>files := map (\<lambda>f. if dirtyN (pf_name f) s then flushed api s f else f) (files p)\<rparr>"
  from get_loaded [OF assms, of api] obtain s' where
    g: "get api s = (Inr (project s'), s')" and q': "project s' = Some ?b" and
    t': "typescriptDefaults s' = typescriptDefaults s"
    by blast
  have "map pf_name (files ?b) = map pf_name (files p)"
    by (simp add: comp_def flushed_name cong: if_cong)
  moreover have "map pf_type (files ?b) = map pf_type (files p)"
    by (simp add: comp_def flushed_type cong: if_cong)
  moreover have "\<forall>i<length (files p). \<not> dirtyN (pf_name (files p ! i)) s \<longrightarrow> files ?b ! i = files p ! i"
    by simp
  ultimately show ?thesis
    using g q' t' by (intro exI [of _ ?b] exI [of _ s']) simp
qed

theorem get_frame_witness:
  "wf edited \<and> project edited = Some exampleBundle \<and>
   (\<exists>b s'. get exampleApi edited = (Inr (Some b), s') \<and> project s' = Some b \<and>
      map pf_name (files b) = map pf_name (files exampleBundle) \<and>
      map pf_type (files b) = map pf_type (files exampleBundle) \<and>
      environmentFiles b = environmentFiles exampleBundle \<and> tsconfig b = tsconfig exampleBundle \<and>
      typescriptDefaults s' = typescriptDefaults edited \<and>
      (\<forall>i<length (files exampleBundle). \<not> dirtyN (pf_name (files exampleBundle ! i)) edited \<longrightarrow>
          files b ! i = files exampleBundle ! i))"
  using get_frame [OF wf_edited edited_project, of exampleApi] wf_edited edited_project
  by blast


subsection \<open>Marking a file and editing its buffer\<close>

lemma setFileDirty_step:
  assumes wf: "wf s" and q: "project s = Some q" and fr: "fr q n = Some (r0, f0)"
  shows "\<exists>s'. setFileDirty n reset s = (Inr (), s') \<and> wf s' \<and> project s' = Some q \<and>
     models s' = models s \<and> mdl s' = mdl s \<and>
     dflag s' = (dflag s)(r0 \<mapsto> reset \<noteq> Some True) \<and>
     typescriptDefaults s' = typescriptDefaults s"
proof -
  let ?s' = "s\<lparr>fileMap := (fileMap s)(r0 \<mapsto> \<lparr>dirty = Some (reset \<noteq> Some True), model = mdl s r0\<rparr>)\<rparr>"
  have run: "setFileDirty n reset s = (Inr (), ?s')"
    using setFileDirty_loaded [OF q fr] .
  have m: "mdl ?s' = mdl s" by (auto simp: mdl_def fun_eq_iff)
  have d: "dflag ?s' = (dflag s)(r0 \<mapsto> reset \<noteq> Some True)" by (auto simp: dflag_def fun_eq_iff)
  have "wf ?s'" using wf unfolding wf_mdl m by simp
  with run m d q show ?thesis by (intro exI [of _ ?s']) simp
qed

lemma edit_simps:
  "project (edit h v s) = project s"
  "fileMap (edit h v s) = fileMap s"
  "typescriptDefaults (edit h v s) = typescriptDefaults s"
  "length (models (edit h v s)) = length (models s)"
  "mdl (edit h v s) = mdl s"
  "dflag (edit h v s) = dflag s"
  by (simp_all add: edit_def mdl_def dflag_def fun_eq_iff)

lemma edit_wf: "wf (edit h v s) = wf s"
  by (simp add: wf_mdl edit_simps)

lemma edit_value: "h < length (models s) \<Longrightarrow> getValue h (edit h v s) = v"
  by (simp add: edit_def getValue_def)

lemma isFileDirty_result:
  assumes "project s = Some q"
  shows "fst (isFileDirty n s) = Inr (dirtyN n s)"
  using isFileDirty_view [OF assms, of n] by auto

lemma get_flushes:
  assumes wf: "wf s" and q: "project s = Some q" and fr: "fr q n = Some (r0, f0)"
    and d: "dirtyN n s" and h: "mdl s r0 = Some h"
  shows "\<exists>b s' f. get api s = (Inr (Some b), s') \<and> fr b n = Some (r0, f) \<and>
     pf_text f = getValue h s \<and> getValue h s' = getValue h s \<and>
     fst (isFileDirty n s') = Inr False \<and> wf s'"
proof -
  let ?g = "\<lambda>f. if dirtyN (pf_name f) s then flushed api s f else f"
  let ?b = "q\<lparr>files := map ?g (files q)\<rparr>"
  from get_loaded [OF wf q, of api] obtain s' where
    g: "get api s = (Inr (project s'), s')" and wf': "wf s'" and q': "project s' = Some ?b" and
    clean: "\<And>n. \<not> dirtyN n s'" and pre: "prefix (models s) (models s')"
    by blast
  have f0: "r0 < length (files q)" "files q ! r0 = f0" "pf_name f0 = n"
    using fr by (auto dest!: find_ref_Some)
  have names: "map pf_name (map ?g (files q)) = map pf_name (files q)"
    by (simp add: comp_def flushed_name cong: if_cong)
  have frb: "find_ref (\<lambda>f. pf_name f = n) (map ?g (files q)) = Some (r0, ?g f0)"
    using find_ref_names [OF names, of n] fr f0 by simp
  have hl: "h < length (models s)" using wf h by (simp add: wf_mdl)
  have b: "buffer api n s = Some (models s ! h)"
    using fr h by (simp add: buffer_loaded [OF q])
  have tx: "pf_text (?g f0) = getValue h s"
    using d f0 b by (simp add: flushed_def getValue_def)
  have val: "getValue h s' = getValue h s"
    using prefix_nth [OF pre hl] by (simp add: getValue_def)
  have nd: "fst (isFileDirty n s') = Inr False"
    using isFileDirty_result [OF q', of n] clean by simp
  show ?thesis
    using g q' frb tx val nd wf'
    by (intro exI [of _ ?b] exI [of _ s'] exI [of _ "?g f0"]) simp
qed

text \<open>
  C1, as claimed: after \<open>setFileDirty(name)\<close>, an edit of the buffer and \<open>get()\<close>,
  the file is still marked dirty. It is not: \<open>_updateBundle\<close> calls
  \<open>setFileDirty(file.name, true)\<close>, and \<open>true\<close> is the argument \<open>reset\<close>, which
  unsets the flag. On the example, \<open>readme.md\<close> is dirty before \<open>get()\<close> and not
  dirty after it.
\<close>

theorem flush_clears_dirty_counterexample:
  "fst (isFileDirty ''readme.md'' edited) = Inr True \<and>
   fst (isFileDirty ''readme.md'' (snd (get exampleApi edited))) = Inr False"
  by (simp add: edited_eq loaded_eq exampleBundle_def exampleApi_def run_defs upt_rec)

text \<open>
  C1, amended. For every loaded project and every file name in it: after
  \<open>setFileDirty(name)\<close>, then \<open>getFileModel(name)\<close> and any change \<open>v\<close> of the content
  of that buffer, the file is marked dirty, and \<open>get()\<close> then returns a bundle whose
  file with that name has the text \<open>v\<close>, the current content of the buffer, and leaves
  the file not marked dirty: the flush clears the flag.
\<close>

theorem flush_round_trip:
  assumes "wf s" and "project s = Some p" and "filename \<in> set (map pf_name (files p))"
    and "setFileDirty filename None s = (r1, s1)"
    and "getFileModel api filename s1 = (r2, s2)"
  shows "\<exists>h. r1 = Inr () \<and> r2 = Inr h \<and>
     (\<forall>v. \<exists>b s4 i f. get api (edit h v s2) = (Inr (Some b), s4) \<and>
        find_ref (\<lambda>f. pf_name f = filename) (files b) = Some (i, f) \<and>
        pf_text f = v \<and> getValue h s4 = v \<and>
        fst (isFileDirty filename (edit h v s2)) = Inr True \<and>
        fst (isFileDirty filename s4) = Inr False)"
proof -
  from fr_known [OF assms(3)] obtain r0 f0 where fr: "fr p filename = Some (r0, f0)" by blast
  from setFileDirty_step [OF assms(1,2) fr, of None] assms(4) have
    r1: "r1 = Inr ()" and wf1: "wf s1" and q1: "project s1 = Some p" and
    d1: "dflag s1 = (dflag s)(r0 \<mapsto> True)"
    by auto
  from getFileModel_step [OF wf1 q1 fr, of api] assms(5) obtain h where
    r2: "r2 = Inr h" and wf2: "wf s2" and q2: "project s2 = Some p" and
    h2: "h < length (models s2)" and m2: "mdl s2 = (mdl s1)(r0 \<mapsto> h)" and
    d2: "dflag s2 = dflag s1"
    by auto
  have main: "\<exists>b s4 i f. get api (edit h v s2) = (Inr (Some b), s4) \<and>
        find_ref (\<lambda>f. pf_name f = filename) (files b) = Some (i, f) \<and>
        pf_text f = v \<and> getValue h s4 = v \<and>
        fst (isFileDirty filename (edit h v s2)) = Inr True \<and>
        fst (isFileDirty filename s4) = Inr False" for v
  proof -
    let ?s3 = "edit h v s2"
    have wf3: "wf ?s3" using wf2 by (simp add: edit_wf)
    have q3: "project ?s3 = Some p" using q2 by (simp add: edit_simps)
    have m3: "mdl ?s3 r0 = Some h" using m2 by (simp add: edit_simps)
    have d3: "dirtyN filename ?s3"
      using fr d1 d2 by (simp add: dirtyN_loaded [OF q3] edit_simps)
    have v3: "getValue h ?s3 = v" using h2 by (rule edit_value)
    from get_flushes [OF wf3 q3 fr d3 m3, of api] obtain b s4 f where
      "get api ?s3 = (Inr (Some b), s4)" "fr b filename = Some (r0, f)"
      "pf_text f = getValue h ?s3" "getValue h s4 = getValue h ?s3"
      "fst (isFileDirty filename s4) = Inr False"
      by blast
    moreover have "fst (isFileDirty filename ?s3) = Inr True"
      using isFileDirty_result [OF q3, of filename] d3 by simp
    ultimately show ?thesis using v3 by auto
  qed
  with r1 r2 show ?thesis by blast
qed

theorem flush_round_trip_witness:
  "wf loaded \<and> project loaded = Some exampleBundle \<and>
   ''readme.md'' \<in> set (map pf_name (files exampleBundle)) \<and>
   (\<exists>b s4 i f. get exampleApi edited = (Inr (Some b), s4) \<and>
        find_ref (\<lambda>f. pf_name f = ''readme.md'') (files b) = Some (i, f) \<and>
        pf_text f = ''changed'' \<and> getValue 0 s4 = ''changed'' \<and>
        fst (isFileDirty ''readme.md'' edited) = Inr True \<and>
        fst (isFileDirty ''readme.md'' s4) = Inr False)"
proof -
  have mem: "''readme.md'' \<in> set (map pf_name (files exampleBundle))"
    by (simp add: exampleBundle_def)
  let ?c1 = "setFileDirty ''readme.md'' None loaded"
  let ?c2 = "getFileModel exampleApi ''readme.md'' (snd ?c1)"
  have c1: "?c1 = (fst ?c1, snd ?c1)" and c2: "?c2 = (fst ?c2, snd ?c2)" by simp_all
  have h0: "fst ?c2 = Inr 0"
    by (simp add: loaded_eq exampleBundle_def exampleApi_def run_defs)
  from flush_round_trip [OF wf_loaded loaded_project mem c1 c2] h0
  have "\<forall>v. \<exists>b s4 i f. get exampleApi (edit 0 v (snd ?c2)) = (Inr (Some b), s4) \<and>
        find_ref (\<lambda>f. pf_name f = ''readme.md'') (files b) = Some (i, f) \<and>
        pf_text f = v \<and> getValue 0 s4 = v \<and>
        fst (isFileDirty ''readme.md'' (edit 0 v (snd ?c2))) = Inr True \<and>
        fst (isFileDirty ''readme.md'' s4) = Inr False"
    by auto
  then have "\<exists>b s4 i f. get exampleApi edited = (Inr (Some b), s4) \<and>
        find_ref (\<lambda>f. pf_name f = ''readme.md'') (files b) = Some (i, f) \<and>
        pf_text f = ''changed'' \<and> getValue 0 s4 = ''changed'' \<and>
        fst (isFileDirty ''readme.md'' edited) = Inr True \<and>
        fst (isFileDirty ''readme.md'' s4) = Inr False"
    unfolding edited_def by blast
  with wf_loaded loaded_project mem show ?thesis by blast
qed

subsection \<open>emit\<close>

lemma modelOf_step:
  assumes wf: "wf s" and q: "project s = Some q" and f: "f \<in> set (files q)"
  shows "\<exists>h s'. modelOf api f s = (Inr h, s') \<and> wf s' \<and> project s' = Some q \<and>
     h < length (models s') \<and> buffer api (pf_name f) s = Some (models s' ! h) \<and>
     prefix (models s) (models s') \<and> (\<forall>n. buffer api n s' = buffer api n s) \<and>
     dflag s' = dflag s \<and> typescriptDefaults s' = typescriptDefaults s"
proof -
  from f have "pf_name f \<in> set (map pf_name (files q))" by simp
  from fr_known [OF this] obtain r0 f0 where fr: "fr q (pf_name f) = Some (r0, f0)" by blast
  from getFileModel_step [OF wf q fr, of api] show ?thesis
    unfolding modelOf_def by blast
qed

lemma mapM_modelOf:
  assumes "wf s" and "project s = Some q" and "set fs \<subseteq> set (files q)"
  shows "\<exists>hs s'. mapM (modelOf api) fs s = (Inr hs, s') \<and> wf s' \<and> project s' = Some q \<and>
     prefix (models s) (models s') \<and> (\<forall>n. buffer api n s' = buffer api n s) \<and>
     list_all2 (\<lambda>f h. h < length (models s') \<and> buffer api (pf_name f) s = Some (models s' ! h)) fs hs \<and>
     dflag s' = dflag s \<and> typescriptDefaults s' = typescriptDefaults s"
  using assms
proof (induction fs arbitrary: s)
  case Nil
  then show ?case by (simp add: ret_def)
next
  case (Cons f fs)
  have f: "f \<in> set (files q)" and fs: "set fs \<subseteq> set (files q)" using Cons.prems(3) by auto
  from modelOf_step [OF Cons.prems(1,2) f, of api] obtain h s1 where
    1: "modelOf api f s = (Inr h, s1)" and wf1: "wf s1" and q1: "project s1 = Some q" and
    h: "h < length (models s1)" and b: "buffer api (pf_name f) s = Some (models s1 ! h)" and
    pre1: "prefix (models s) (models s1)" and buf1: "\<And>n. buffer api n s1 = buffer api n s" and
    d1: "dflag s1 = dflag s" and t1: "typescriptDefaults s1 = typescriptDefaults s"
    by blast
  from Cons.IH [OF wf1 q1 fs] obtain hs s' where
    2: "mapM (modelOf api) fs s1 = (Inr hs, s')" and wf': "wf s'" and q': "project s' = Some q" and
    pre2: "prefix (models s1) (models s')" and buf2: "\<And>n. buffer api n s' = buffer api n s1" and
    all: "list_all2 (\<lambda>f h. h < length (models s') \<and> buffer api (pf_name f) s1 = Some (models s' ! h)) fs hs" and
    d2: "dflag s' = dflag s1" and t2: "typescriptDefaults s' = typescriptDefaults s1"
    by blast
  have run: "mapM (modelOf api) (f # fs) s = (Inr (h # hs), s')"
    using 1 2 by (simp add: bind_def ret_def)
  have hd: "h < length (models s') \<and> buffer api (pf_name f) s = Some (models s' ! h)"
    using h b prefix_nth [OF pre2 h] prefix_length_le [OF pre2] by simp
  have all': "list_all2 (\<lambda>f h. h < length (models s') \<and> buffer api (pf_name f) s = Some (models s' ! h)) (f # fs) (h # hs)"
    using hd all by (simp add: buf1)
  have "prefix (models s) (models s')" using pre1 pre2 by (rule prefix_order.trans)
  moreover have "\<forall>n. buffer api n s' = buffer api n s" using buf1 buf2 by simp
  ultimately show ?case using run wf' q' all' d1 d2 t1 t2 by auto
qed

lemma mapM_modelUri:
  assumes "wf s" and "project s = Some q" and "set fs \<subseteq> set (files q)"
  shows "\<exists>us s'. mapM (modelUri api) fs s = (Inr us, s') \<and> wf s' \<and> project s' = Some q \<and>
     prefix (models s) (models s') \<and> (\<forall>n. buffer api n s' = buffer api n s) \<and>
     list_all2 (\<lambda>f u. \<exists>m. buffer api (pf_name f) s = Some m \<and> u = m_uri m) fs us \<and>
     dflag s' = dflag s \<and> typescriptDefaults s' = typescriptDefaults s"
  using assms
proof (induction fs arbitrary: s)
  case Nil
  then show ?case by (simp add: ret_def)
next
  case (Cons f fs)
  have f: "f \<in> set (files q)" and fs: "set fs \<subseteq> set (files q)" using Cons.prems(3) by auto
  from modelOf_step [OF Cons.prems(1,2) f, of api] obtain h s1 where
    1: "modelOf api f s = (Inr h, s1)" and wf1: "wf s1" and q1: "project s1 = Some q" and
    b: "buffer api (pf_name f) s = Some (models s1 ! h)" and
    pre1: "prefix (models s) (models s1)" and buf1: "\<And>n. buffer api n s1 = buffer api n s" and
    d1: "dflag s1 = dflag s" and t1: "typescriptDefaults s1 = typescriptDefaults s"
    by blast
  have u1: "modelUri api f s = (Inr (m_uri (models s1 ! h)), s1)"
    using 1 by (simp add: modelUri_def modelOf_def bind_def uri_def)
  from Cons.IH [OF wf1 q1 fs] obtain us s' where
    2: "mapM (modelUri api) fs s1 = (Inr us, s')" and wf': "wf s'" and q': "project s' = Some q" and
    pre2: "prefix (models s1) (models s')" and buf2: "\<And>n. buffer api n s' = buffer api n s1" and
    all: "list_all2 (\<lambda>f u. \<exists>m. buffer api (pf_name f) s1 = Some m \<and> u = m_uri m) fs us" and
    d2: "dflag s' = dflag s1" and t2: "typescriptDefaults s' = typescriptDefaults s1"
    by blast
  have run: "mapM (modelUri api) (f # fs) s = (Inr (m_uri (models s1 ! h) # us), s')"
    using u1 2 by (simp add: bind_def ret_def)
  have all': "list_all2 (\<lambda>f u. \<exists>m. buffer api (pf_name f) s = Some m \<and> u = m_uri m)
      (f # fs) (m_uri (models s1 ! h) # us)"
    using b all by (simp add: buf1)
  have "prefix (models s) (models s')" using pre1 pre2 by (rule prefix_order.trans)
  moreover have "\<forall>n. buffer api n s' = buffer api n s" using buf1 buf2 by simp
  ultimately show ?case using run wf' q' all' d1 d2 t1 t2 by auto
qed

lemma list_all2_unique:
  assumes "list_all2 R xs ys" and "list_all2 R xs zs"
    and "\<And>x y z. R x y \<Longrightarrow> R x z \<Longrightarrow> y = z"
  shows "ys = zs"
  using assms(1,2)
proof (induction xs ys arbitrary: zs rule: list_all2_induct)
  case Nil
  then show ?case by simp
next
  case (Cons x xs y ys)
  from Cons.prems obtain z zs' where z: "zs = z # zs'" "R x z" "list_all2 R xs zs'"
    by (auto simp: list_all2_Cons1)
  with Cons.IH [of zs'] Cons.hyps(1) assms(3) [of x y z] show ?case by simp
qed

lemma all_settled_Inr:
  "list_all2 (\<lambda>u out. g u = Inr out) us outs \<Longrightarrow> all_settled (map g us) = Inr outs"
  by (induction us outs rule: list_all2_induct) simp_all

lemma foldl_emitted:
  "map conform (foldl emitted acc outs) = map conform acc @ concat (map contribution outs)"
  by (induction outs arbitrary: acc) (simp_all add: emitted_def contribution_def)

lemma emitModel_buffer: "emitModel s h = emitBuffer (models s ! h)"
  by (simp add: emitModel_def emitBuffer_def uri_def getValue_def)

lemma emit_loaded:
  assumes wf: "wf s" and p: "project s = Some p"
    and w: "getTypeScriptWorker api = Inr worker"
    and uris: "list_all2 (\<lambda>f u. \<exists>m. buffer api (pf_name f) s = Some m \<and> u = m_uri m)
                (filter isCompiled (files p)) uris"
    and c: "worker uris = Inr client"
    and outs: "list_all2 (\<lambda>u out. client (toString u) = Inr out) uris outs"
  shows "\<exists>pass s'. emit api s = (Inr (concat (map contribution outs) @ pass), s') \<and>
     list_all2 (\<lambda>f e. \<exists>m. buffer api (pf_name f) s = Some m \<and> e = emitBuffer m)
       (filter (\<lambda>f. \<not> isCompiled f) (files p)) pass \<and>
     wf s' \<and> project s' = Some p \<and> (\<forall>n. buffer api n s' = buffer api n s)"
proof -
  from mapM_modelUri [OF wf p, of "filter isCompiled (files p)" api] obtain us s1 where
    1: "mapM (modelUri api) (filter isCompiled (files p)) s = (Inr us, s1)" and
    wf1: "wf s1" and p1: "project s1 = Some p" and
    buf1: "\<And>n. buffer api n s1 = buffer api n s" and
    all1: "list_all2 (\<lambda>f u. \<exists>m. buffer api (pf_name f) s = Some m \<and> u = m_uri m)
             (filter isCompiled (files p)) us"
    by auto
  have us: "us = uris"
    using all1 uris by (rule list_all2_unique) auto
  have settled: "all_settled (map (\<lambda>file. client (toString file)) uris) = Inr outs"
    using outs by (rule all_settled_Inr)
  from mapM_modelOf [OF wf1 p1, of "filter (\<lambda>f. \<not> isCompiled f) (files p)" api] obtain hs s' where
    2: "mapM (modelOf api) (filter (\<lambda>f. \<not> isCompiled f) (files p)) s1 = (Inr hs, s')" and
    wf': "wf s'" and p': "project s' = Some p" and
    buf2: "\<And>n. buffer api n s' = buffer api n s1" and
    all2: "list_all2 (\<lambda>f h. h < length (models s') \<and> buffer api (pf_name f) s1 = Some (models s' ! h))
             (filter (\<lambda>f. \<not> isCompiled f) (files p)) hs"
    by auto
  have run: "emit api s = (Inr (concat (map contribution outs) @ map (emitModel s') hs), s')"
    using p 1 us w c settled 2 by (simp add: emit_def bind_def lift_def foldl_emitted)
  have "list_all2 (\<lambda>f e. \<exists>m. buffer api (pf_name f) s = Some m \<and> e = emitBuffer m)
       (filter (\<lambda>f. \<not> isCompiled f) (files p)) (map (emitModel s') hs)"
    using all2 by (simp add: list_all2_map2 buf1 emitModel_buffer list_all2_mono)
  moreover have "\<forall>n. buffer api n s' = buffer api n s" using buf1 buf2 by simp
  ultimately show ?thesis using run wf' p' by blast
qed

lemma emit_unloaded: "project s = None \<Longrightarrow> emit api s = (Inl NotLoadedError, s)"
  by (simp add: emit_def)


lemma example_uris:
  "list_all2 (\<lambda>f u. \<exists>m. buffer exampleApi (pf_name f) loaded = Some m \<and> u = m_uri m)
     (filter isCompiled (files exampleBundle)) [posixUri ''a.ts'', posixUri ''skip.ts'']"
  by (simp add: buffer_def isCompiled_def loaded_eq exampleBundle_def exampleApi_def run_defs)

lemma edited_uris:
  "list_all2 (\<lambda>f u. \<exists>m. buffer exampleApi (pf_name f) edited = Some m \<and> u = m_uri m)
     (filter isCompiled (files exampleBundle)) [posixUri ''a.ts'', posixUri ''skip.ts'']"
  by (simp add: buffer_def isCompiled_def edited_eq loaded_eq exampleBundle_def exampleApi_def
      run_defs)

lemma example_outs:
  "list_all2 (\<lambda>u out. exampleClient (toString u) = Inr out)
     [posixUri ''a.ts'', posixUri ''skip.ts'']
     [\<lparr>emitSkipped = False, outputFiles = [\<lparr>ef_name = ''file:///a.ts.js'', ef_text = ''compiled''\<rparr>]\<rparr>,
      \<lparr>emitSkipped = True, outputFiles = [\<lparr>ef_name = ''file:///skip.ts.js'', ef_text = ''compiled''\<rparr>]\<rparr>]"
  by (simp add: exampleClient_def posixUri_def Let_def)

text \<open>
  C4, as claimed: the path of every pass-through file has any \<open>/./\<close> segment
  collapsed. It has not: \<open>replace\<close> with a regular expression without the \<open>g\<close> flag
  replaces the first match only. On the example, the buffer of \<open>docs/./x/./notes.txt\<close>
  has the path \<open>/docs/./x/./notes.txt\<close>, and \<open>emit()\<close> names its file
  \<open>/docs/x/./notes.txt\<close>.
\<close>

theorem emit_path_counterexample:
  "fsPath (Uri_file exampleApi ''docs/./x/./notes.txt'') = ''/docs/./x/./notes.txt'' \<and>
   fst (emit exampleApi loaded) =
     Inr [\<lparr>ef_name = ''/a.ts.js'', ef_text = ''compiled''\<rparr>,
          \<lparr>ef_name = ''/readme.md'', ef_text = ''hello''\<rparr>,
          \<lparr>ef_name = ''/docs/x/./notes.txt'', ef_text = ''notes''\<rparr>]"
  by (simp add: emit_def modelUri_def modelOf_def emitModel_def conform_def emitted_def
      isCompiled_def exampleWorker_def exampleClient_def loaded_eq exampleBundle_def
      exampleApi_def run_defs)

text \<open>
  C4, amended. For every loaded project, when the worker, its session for the uris of the
  buffers of the compiled files and every emit request resolve, \<open>emit()\<close> returns the
  outputs of the compiled files (kinds TypeScript and Definition) first, in the order of
  these files in the bundle, followed by one file per file of any other kind, in bundle
  order, whose text is the current content of the buffer of the file (not the text stored
  in the bundle) and whose name is the path of that buffer with its first occurrence of
  \<open>/./\<close> replaced by \<open>/\<close>.
\<close>

theorem emit_order:
  assumes "wf s" and "project s = Some p"
    and "getTypeScriptWorker api = Inr worker"
    and "list_all2 (\<lambda>f u. \<exists>m. buffer api (pf_name f) s = Some m \<and> u = m_uri m)
           (filter isCompiled (files p)) uris"
    and "worker uris = Inr client"
    and "list_all2 (\<lambda>u out. client (toString u) = Inr out) uris outs"
  shows "\<exists>pass s'. emit api s = (Inr (concat (map contribution outs) @ pass), s') \<and>
     list_all2 (\<lambda>f e. \<exists>m. buffer api (pf_name f) s = Some m \<and>
                  ef_name e = replace ''/./'' ''/'' (fsPath (m_uri m)) \<and> ef_text e = m_value m)
       (filter (\<lambda>f. \<not> isCompiled f) (files p)) pass"
proof -
  from emit_loaded [OF assms] obtain pass s' where
    run: "emit api s = (Inr (concat (map contribution outs) @ pass), s')" and
    all: "list_all2 (\<lambda>f e. \<exists>m. buffer api (pf_name f) s = Some m \<and> e = emitBuffer m)
       (filter (\<lambda>f. \<not> isCompiled f) (files p)) pass"
    by blast
  have "list_all2 (\<lambda>f e. \<exists>m. buffer api (pf_name f) s = Some m \<and>
                  ef_name e = replace ''/./'' ''/'' (fsPath (m_uri m)) \<and> ef_text e = m_value m)
       (filter (\<lambda>f. \<not> isCompiled f) (files p)) pass"
    using all by (rule list_all2_mono) (auto simp: emitBuffer_def)
  with run show ?thesis by blast
qed

theorem emit_order_witness:
  "wf edited \<and> project edited = Some exampleBundle \<and>
   getTypeScriptWorker exampleApi = Inr exampleWorker \<and>
   exampleWorker [posixUri ''a.ts'', posixUri ''skip.ts''] = Inr exampleClient \<and>
   (\<exists>pass s'. emit exampleApi edited =
      (Inr ([\<lparr>ef_name = ''/a.ts.js'', ef_text = ''compiled''\<rparr>] @ pass), s') \<and>
     list_all2 (\<lambda>f e. \<exists>m. buffer exampleApi (pf_name f) edited = Some m \<and>
                  ef_name e = replace ''/./'' ''/'' (fsPath (m_uri m)) \<and> ef_text e = m_value m)
       (filter (\<lambda>f. \<not> isCompiled f) (files exampleBundle)) pass) \<and>
   fst (emit exampleApi edited) =
     Inr [\<lparr>ef_name = ''/a.ts.js'', ef_text = ''compiled''\<rparr>,
          \<lparr>ef_name = ''/readme.md'', ef_text = ''changed''\<rparr>,
          \<lparr>ef_name = ''/docs/x/./notes.txt'', ef_text = ''notes''\<rparr>]"
proof -
  have w: "getTypeScriptWorker exampleApi = Inr exampleWorker" by (simp add: exampleApi_def)
  have c: "exampleWorker [posixUri ''a.ts'', posixUri ''skip.ts''] = Inr exampleClient"
    by (simp add: exampleWorker_def)
  from emit_order [OF wf_edited edited_project w edited_uris c example_outs]
  have "\<exists>pass s'. emit exampleApi edited =
      (Inr ([\<lparr>ef_name = ''/a.ts.js'', ef_text = ''compiled''\<rparr>] @ pass), s') \<and>
     list_all2 (\<lambda>f e. \<exists>m. buffer exampleApi (pf_name f) edited = Some m \<and>
                  ef_name e = replace ''/./'' ''/'' (fsPath (m_uri m)) \<and> ef_text e = m_value m)
       (filter (\<lambda>f. \<not> isCompiled f) (files exampleBundle)) pass"
    by (simp add: contribution_def conform_def)
  moreover have "fst (emit exampleApi edited) =
     Inr [\<lparr>ef_name = ''/a.ts.js'', ef_text = ''compiled''\<rparr>,
          \<lparr>ef_name = ''/readme.md'', ef_text = ''changed''\<rparr>,
          \<lparr>ef_name = ''/docs/x/./notes.txt'', ef_text = ''notes''\<rparr>]"
    by (simp add: emit_def modelUri_def modelOf_def emitModel_def conform_def emitted_def
      isCompiled_def exampleWorker_def exampleClient_def edited_eq loaded_eq exampleBundle_def
      exampleApi_def run_defs)
  ultimately show ?thesis using wf_edited edited_project w c by blast
qed

text \<open>
  C5. For every loaded project, if the worker reports \<open>emitSkipped\<close> for a compiled
  file, the one at position \<open>i\<close> among the compiled files, then \<open>emit()\<close> still
  returns a result, that file contributes nothing to it, and the result is made of the
  contributions of the compiled files before it, of those after it, and of the files of
  all pass-through files.
\<close>

theorem emit_skipped:
  assumes "wf s" and "project s = Some p"
    and "getTypeScriptWorker api = Inr worker"
    and "list_all2 (\<lambda>f u. \<exists>m. buffer api (pf_name f) s = Some m \<and> u = m_uri m)
           (filter isCompiled (files p)) uris"
    and "worker uris = Inr client"
    and "list_all2 (\<lambda>u out. client (toString u) = Inr out) uris outs"
    and "i < length outs" and "emitSkipped (outs ! i)"
  shows "\<exists>pass s'. emit api s =
       (Inr (concat (map contribution (take i outs)) @
             concat (map contribution (drop (Suc i) outs)) @ pass), s') \<and>
     list_all2 (\<lambda>f e. \<exists>m. buffer api (pf_name f) s = Some m \<and> e = emitBuffer m)
       (filter (\<lambda>f. \<not> isCompiled f) (files p)) pass"
proof -
  from emit_loaded [OF assms(1-6)] obtain pass s' where
    run: "emit api s = (Inr (concat (map contribution outs) @ pass), s')" and
    all: "list_all2 (\<lambda>f e. \<exists>m. buffer api (pf_name f) s = Some m \<and> e = emitBuffer m)
       (filter (\<lambda>f. \<not> isCompiled f) (files p)) pass"
    by blast
  have "outs = take i outs @ outs ! i # drop (Suc i) outs"
    using assms(7) by (rule id_take_nth_drop)
  then have "concat (map contribution outs) =
      concat (map contribution (take i outs)) @ contribution (outs ! i) @
      concat (map contribution (drop (Suc i) outs))"
    by (metis concat.simps(2) concat_append list.simps(9) map_append)
  moreover have "contribution (outs ! i) = []"
    using assms(8) by (simp add: contribution_def)
  ultimately show ?thesis using run all by auto
qed

theorem emit_skipped_witness:
  "wf loaded \<and> project loaded = Some exampleBundle \<and>
   getTypeScriptWorker exampleApi = Inr exampleWorker \<and>
   exampleWorker [posixUri ''a.ts'', posixUri ''skip.ts''] = Inr exampleClient \<and>
   exampleClient (toString (posixUri ''skip.ts'')) =
     Inr \<lparr>emitSkipped = True,
          outputFiles = [\<lparr>ef_name = ''file:///skip.ts.js'', ef_text = ''compiled''\<rparr>]\<rparr> \<and>
   (\<exists>pass s'. emit exampleApi loaded =
      (Inr ([\<lparr>ef_name = ''/a.ts.js'', ef_text = ''compiled''\<rparr>] @ pass), s') \<and>
     list_all2 (\<lambda>f e. \<exists>m. buffer exampleApi (pf_name f) loaded = Some m \<and> e = emitBuffer m)
       (filter (\<lambda>f. \<not> isCompiled f) (files exampleBundle)) pass)"
proof -
  have w: "getTypeScriptWorker exampleApi = Inr exampleWorker" by (simp add: exampleApi_def)
  have c: "exampleWorker [posixUri ''a.ts'', posixUri ''skip.ts''] = Inr exampleClient"
    by (simp add: exampleWorker_def)
  have k: "exampleClient (toString (posixUri ''skip.ts'')) =
     Inr \<lparr>emitSkipped = True,
          outputFiles = [\<lparr>ef_name = ''file:///skip.ts.js'', ef_text = ''compiled''\<rparr>]\<rparr>"
    by (simp add: exampleClient_def posixUri_def Let_def)
  from emit_skipped [OF wf_loaded loaded_project w example_uris c example_outs, of 1]
  have "\<exists>pass s'. emit exampleApi loaded =
      (Inr ([\<lparr>ef_name = ''/a.ts.js'', ef_text = ''compiled''\<rparr>] @ pass), s') \<and>
     list_all2 (\<lambda>f e. \<exists>m. buffer exampleApi (pf_name f) loaded = Some m \<and> e = emitBuffer m)
       (filter (\<lambda>f. \<not> isCompiled f) (files exampleBundle)) pass"
    by (simp add: contribution_def conform_def)
  with wf_loaded loaded_project w c k show ?thesis by blast
qed

section \<open>Invariants of a session\<close>

lemma keeps_getFileModel:
  "keeps api P \<Longrightarrow> P s \<Longrightarrow> getFileModel api n s = (r, s') \<Longrightarrow> P s'"
  unfolding keeps_def by blast

lemma keeps_isFileDirty:
  "keeps api P \<Longrightarrow> P s \<Longrightarrow> isFileDirty n s = (r, s') \<Longrightarrow> P s'"
  unfolding keeps_def by blast

lemma keeps_setFileDirty:
  "keeps api P \<Longrightarrow> P s \<Longrightarrow> setFileDirty n x s = (r, s') \<Longrightarrow> P s'"
  unfolding keeps_def by blast

lemma keeps_setText: "keeps api P \<Longrightarrow> P s \<Longrightarrow> P (setText i v s)"
  unfolding keeps_def by blast

lemma bind_cases [consumes 1, case_names fail ok]:
  assumes "bind m k s = (r, s')"
  obtains e where "m s = (Inl e, s')" and "r = Inl e"
  | x s1 where "m s = (Inr x, s1)" and "k x s1 = (r, s')"
  using assms by (auto simp: bind_def split: prod.splits sum.splits)

lemma bind_lift_cases [consumes 1, case_names fail ok]:
  assumes "bind (lift x) k s = (r, s')"
  obtains e where "x = Inl e" and "s' = s" and "r = Inl e"
  | y where "x = Inr y" and "k y s = (r, s')"
  using assms by (cases x) (auto simp: bind_def lift_def)

lemma forEach_inv:
  assumes "\<And>x s r s'. P s \<Longrightarrow> f x s = (r, s') \<Longrightarrow> P s'"
  shows "P s \<Longrightarrow> forEach f xs s = (r, s') \<Longrightarrow> P s'"
proof (induction xs arbitrary: s)
  case Nil
  then show ?case by (simp add: ret_def)
next
  case (Cons x xs)
  from Cons.prems(2) have "bind (f x) (\<lambda>_. forEach f xs) s = (r, s')" by simp
  then show ?case
  proof (cases rule: bind_cases)
    case (fail e)
    with assms Cons.prems(1) show ?thesis by blast
  next
    case (ok u s1)
    with assms Cons.prems(1) Cons.IH show ?thesis by blast
  qed
qed

lemma mapM_inv:
  assumes "\<And>x s r s'. P s \<Longrightarrow> f x s = (r, s') \<Longrightarrow> P s'"
  shows "P s \<Longrightarrow> mapM f xs s = (r, s') \<Longrightarrow> P s'"
proof (induction xs arbitrary: s r)
  case Nil
  then show ?case by (simp add: ret_def)
next
  case (Cons x xs)
  from Cons.prems(2) have "bind (f x) (\<lambda>y. bind (mapM f xs) (\<lambda>ys. ret (y # ys))) s = (r, s')"
    by simp
  then show ?case
  proof (cases rule: bind_cases)
    case (fail e)
    with assms Cons.prems(1) show ?thesis by blast
  next
    case (ok y s1)
    from assms Cons.prems(1) ok(1) have p1: "P s1" by blast
    from ok(2) show ?thesis
    proof (cases rule: bind_cases)
      case (fail e)
      with Cons.IH p1 show ?thesis by blast
    next
      case (ok ys s2)
      with Cons.IH p1 show ?thesis by (auto simp: ret_def)
    qed
  qed
qed

lemma filterM_inv:
  assumes "\<And>x s r s'. P s \<Longrightarrow> p x s = (r, s') \<Longrightarrow> P s'"
  shows "P s \<Longrightarrow> filterM p xs s = (r, s') \<Longrightarrow> P s'"
proof (induction xs arbitrary: s r)
  case Nil
  then show ?case by (simp add: ret_def)
next
  case (Cons x xs)
  from Cons.prems(2)
  have "bind (p x) (\<lambda>b. bind (filterM p xs) (\<lambda>ys. ret (if b then x # ys else ys))) s = (r, s')"
    by simp
  then show ?case
  proof (cases rule: bind_cases)
    case (fail e)
    with assms Cons.prems(1) show ?thesis by blast
  next
    case (ok y s1)
    from assms Cons.prems(1) ok(1) have p1: "P s1" by blast
    from ok(2) show ?thesis
    proof (cases rule: bind_cases)
      case (fail e)
      with Cons.IH p1 show ?thesis by blast
    next
      case (ok ys s2)
      with Cons.IH p1 show ?thesis by (auto simp: ret_def)
    qed
  qed
qed

lemma flushFile_inv:
  assumes k: "keeps api P" and p: "P s" and run: "flushFile api k s = (r, s')"
  shows "P s'"
proof -
  obtain i f where kf: "k = (i, f)" by (cases k)
  from run have "bind (getFileModel api (pf_name f)) (\<lambda>h.
     bind (\<lambda>s1. (Inr (), setText i (getValue h s1) s1)) (\<lambda>_.
     setFileDirty (pf_name f) (Some True))) s = (r, s')"
    by (simp add: kf flushFile_def)
  then show ?thesis
  proof (cases rule: bind_cases)
    case (fail e)
    with k p show ?thesis by (blast intro: keeps_getFileModel)
  next
    case (ok h s1)
    from k p ok(1) have p1: "P s1" by (rule keeps_getFileModel)
    with k have p2: "P (setText i (getValue h s1) s1)" by (rule keeps_setText)
    from ok(2) have "setFileDirty (pf_name f) (Some True) (setText i (getValue h s1) s1) = (r, s')"
      by (simp add: bind_def)
    with k p2 show ?thesis by (rule keeps_setFileDirty)
  qed
qed

lemma updateBundle_inv:
  assumes k: "keeps api P" and p: "P s" and run: "updateBundle api s = (r, s')"
  shows "P s'"
proof (cases "project s")
  case None
  with run p show ?thesis by (simp add: updateBundle_def)
next
  case (Some q)
  have dirty: "P s2" if "P s1" "(case x of (r, f) \<Rightarrow> isFileDirty (pf_name f)) s1 = (r2, s2)"
    for x s1 r2 s2
  proof -
    obtain i f where "x = (i, f)" by (cases x)
    with that(2) have "isFileDirty (pf_name f) s1 = (r2, s2)" by simp
    with k that(1) show ?thesis by (rule keeps_isFileDirty)
  qed
  from Some run have "bind (filterM (\<lambda>(r, f). isFileDirty (pf_name f)) (enumerate 0 (files q)))
            (forEach (flushFile api)) s = (r, s')"
    by (simp add: updateBundle_def)
  then show ?thesis
  proof (cases rule: bind_cases)
    case (fail e)
    from dirty p fail(1) show ?thesis by (rule filterM_inv)
  next
    case (ok ks s1)
    from dirty p ok(1) have p1: "P s1" by (rule filterM_inv)
    from flushFile_inv [OF k] p1 ok(2) show ?thesis by (rule forEach_inv)
  qed
qed

lemma get_inv:
  assumes "keeps api P" and "P s" and "get api s = (r, s')"
  shows "P s'"
proof -
  from assms(3) have "bind (updateBundle api) (\<lambda>_ s. (Inr (project s), s)) s = (r, s')"
    by (simp add: get_def)
  then show ?thesis
  proof (cases rule: bind_cases)
    case (fail e)
    with assms(1,2) show ?thesis by (blast intro: updateBundle_inv)
  next
    case (ok u s1)
    with assms(1,2) show ?thesis by (auto intro: updateBundle_inv)
  qed
qed

lemma modelUri_inv:
  assumes "keeps api P" and "P s" and "modelUri api f s = (r, s')"
  shows "P s'"
proof -
  from assms(3) have "bind (getFileModel api (pf_name f)) (\<lambda>h s1. (Inr (uri h s1), s1)) s = (r, s')"
    by (simp add: modelUri_def)
  then show ?thesis
  proof (cases rule: bind_cases)
    case (fail e)
    with assms(1,2) show ?thesis by (blast intro: keeps_getFileModel)
  next
    case (ok h s1)
    from assms(1,2) ok(1) have "P s1" by (rule keeps_getFileModel)
    with ok(2) show ?thesis by simp
  qed
qed

lemma modelOf_inv:
  assumes "keeps api P" and "P s" and "modelOf api f s = (r, s')"
  shows "P s'"
  using assms unfolding modelOf_def by (rule keeps_getFileModel)

lemma emit_inv:
  assumes k: "keeps api P" and p: "P s" and run: "emit api s = (r, s')"
  shows "P s'"
proof (cases "project s")
  case None
  with run p show ?thesis by (simp add: emit_def)
next
  case (Some q)
  let ?rest = "\<lambda>typescriptFileUris.
          bind (lift (getTypeScriptWorker api)) (\<lambda>worker.
          bind (lift (worker typescriptFileUris)) (\<lambda>client.
          bind (lift (all_settled (map (\<lambda>file. client (toString file)) typescriptFileUris))) (\<lambda>output.
          bind (mapM (modelOf api) (filter (\<lambda>f. \<not> isCompiled f) (files q))) (\<lambda>ms s1.
            (Inr (map conform (foldl emitted [] output) @ map (emitModel s1) ms), s1)))))"
  from Some run have "bind (mapM (modelUri api) (filter isCompiled (files q))) ?rest s = (r, s')"
    by (simp add: emit_def)
  then show ?thesis
  proof (cases rule: bind_cases)
    case (fail e)
    from modelUri_inv [OF k] p fail(1) show ?thesis by (rule mapM_inv)
  next
    case (ok us s1)
    from modelUri_inv [OF k] p ok(1) have p1: "P s1" by (rule mapM_inv)
    have m2: "P s2" if "mapM (modelOf api) xs s1 = (r2, s2)" for xs r2 s2
      using modelOf_inv [OF k] p1 that by (rule mapM_inv)
    from ok(2) show ?thesis
    proof (cases rule: bind_lift_cases)
      case (fail e)
      with p1 show ?thesis by simp
    next
      case (ok worker)
      from ok(2) show ?thesis
      proof (cases rule: bind_lift_cases)
        case (fail e)
        with p1 show ?thesis by simp
      next
        case (ok client)
        from ok(2) show ?thesis
        proof (cases rule: bind_lift_cases)
          case (fail e)
          with p1 show ?thesis by simp
        next
          case (ok outp)
          from ok(2) show ?thesis
          proof (cases rule: bind_cases)
            case (fail e)
            then show ?thesis by (blast intro: m2)
          next
            case (ok ms s2)
            then show ?thesis by (auto intro: m2)
          qed
        qed
      qed
    qed
  qed
qed


lemma getFileModel_effect:
  assumes "getFileModel api n s = (r, s')"
  shows "s' = s \<or> (\<exists>r0 m. mdl s r0 = None \<and>
     s' = s\<lparr>models := models s @ [m],
            fileMap := (fileMap s)(r0 \<mapsto> \<lparr>dirty = dflag s r0, model = Some (length (models s))\<rparr>)\<rparr>)"
proof (cases "project s")
  case None
  with assms show ?thesis by (simp add: getFileModel_def getFile_def bind_def)
next
  case (Some q)
  show ?thesis
  proof (cases "fr q n")
    case None
    with assms Some show ?thesis by (simp add: getFileModel_unknown)
  next
    case fr: (Some a)
    obtain r0 f0 where a: "a = (r0, f0)" by (cases a)
    show ?thesis
    proof (cases "mdl s r0")
      case None
      with assms getFileModel_loaded [OF Some, of n r0 f0 api] fr a show ?thesis by auto
    next
      case (Some h)
      with assms getFileModel_loaded [OF \<open>project s = Some q\<close>, of n r0 f0 api] fr a
      show ?thesis by auto
    qed
  qed
qed

lemma isFileDirty_effect:
  assumes "isFileDirty n s = (r, s')"
  shows "same_view s s'"
proof (cases "project s")
  case None
  with assms show ?thesis by (simp add: isFileDirty_def getFile_def bind_def same_view_refl)
next
  case (Some q)
  from isFileDirty_view [OF Some, of n] assms show ?thesis by auto
qed

lemma setFileDirty_effect:
  assumes "setFileDirty n x s = (r, s')"
  shows "s' = s \<or> (\<exists>r0 d. s' = s\<lparr>fileMap := (fileMap s)(r0 \<mapsto> \<lparr>dirty = d, model = mdl s r0\<rparr>)\<rparr>)"
proof (cases "project s")
  case None
  with assms show ?thesis by (simp add: setFileDirty_def getFile_def bind_def)
next
  case (Some q)
  show ?thesis
  proof (cases "fr q n")
    case None
    with assms Some show ?thesis by (simp add: setFileDirty_def getFile_def bind_def throw_def)
  next
    case fr: (Some a)
    obtain r0 f0 where a: "a = (r0, f0)" by (cases a)
    from assms setFileDirty_loaded [OF Some, of n r0 f0 x] fr a show ?thesis by auto
  qed
qed

lemma keeps_wf: "keeps api wf"
  unfolding keeps_def
proof (intro conjI allI impI)
  fix n s r s' assume wf: "wf s" and run: "getFileModel api n s = (r, s')"
  from getFileModel_effect [OF run] show "wf s'"
  proof (elim disjE exE conjE)
    assume "s' = s" with wf show ?thesis by simp
  next
    fix r0 m
    assume "s' = s\<lparr>models := models s @ [m],
            fileMap := (fileMap s)(r0 \<mapsto> \<lparr>dirty = dflag s r0, model = Some (length (models s))\<rparr>)\<rparr>"
    with wf show ?thesis by (auto simp: wf_def less_Suc_eq)
  qed
next
  fix n s r s' assume "wf s" and "isFileDirty n s = (r, s')"
  then show "wf s'" using same_view_wf [OF isFileDirty_effect] by blast
next
  fix n x s r s' assume wf: "wf s" and run: "setFileDirty n x s = (r, s')"
  from setFileDirty_effect [OF run] wf show "wf s'"
    by (auto simp: wf_def mdl_def split: option.splits if_splits)
next
  fix i v s assume "wf s"
  then show "wf (setText i v s)" by (simp add: wf_def setText_def)
qed

lemma keeps_cached: "keeps api (cached p r0 h)"
  unfolding keeps_def
proof (intro conjI allI impI)
  fix n s r s' assume c: "cached p r0 h s" and run: "getFileModel api n s = (r, s')"
  from getFileModel_effect [OF run] show "cached p r0 h s'"
  proof (elim disjE exE conjE)
    assume "s' = s" with c show ?thesis by simp
  next
    fix r1 m
    assume "mdl s r1 = None" and
      "s' = s\<lparr>models := models s @ [m],
            fileMap := (fileMap s)(r1 \<mapsto> \<lparr>dirty = dflag s r1, model = Some (length (models s))\<rparr>)\<rparr>"
    with c show ?thesis by (auto simp: cached_def mdl_def)
  qed
next
  fix n s r s' assume c: "cached p r0 h s" and run: "isFileDirty n s = (r, s')"
  from isFileDirty_effect [OF run] c show "cached p r0 h s'"
    by (simp add: cached_def same_view_def)
next
  fix n x s r s' assume c: "cached p r0 h s" and run: "setFileDirty n x s = (r, s')"
  from setFileDirty_effect [OF run] c show "cached p r0 h s'"
    by (auto simp: cached_def mdl_def)
next
  fix i v s assume c: "cached p r0 h s"
  then obtain q where q: "project s = Some q" "map pf_name (files q) = map pf_name (files p)"
    by (auto simp: cached_def)
  have "map pf_name ((files q)[i := (files q ! i)\<lparr>pf_text := v\<rparr>]) = map pf_name (files q)"
    by (simp add: map_name_update)
  with c q show "cached p r0 h (setText i v s)"
    by (simp add: cached_def setText_def mdl_def)
qed

subsection \<open>load touches neither the meta data nor the models\<close>

lemma setTypeScriptEnvironment_frame:
  "setTypeScriptEnvironment api s = (r, s') \<Longrightarrow> fileMap s' = fileMap s \<and> models s' = models s"
  by (auto simp: setTypeScriptEnvironment_def Let_def split: option.splits sum.splits)

lemma setEnvironmentFiles_frame:
  assumes "setEnvironmentFiles api s = (r, s')"
  shows "fileMap s' = fileMap s \<and> models s' = models s"
proof (cases "project s")
  case None
  with assms show ?thesis by (simp add: setEnvironmentFiles_def)
next
  case (Some p)
  let ?P = "\<lambda>t. fileMap t = fileMap s \<and> models t = models s"
  have "?P s" by simp
  moreover from Some assms have "forEach (\<lambda>f s1.
            case addExtraLib api (pf_text f)
                   ((if pf_type f = Lib then '''' else ''file:///'') @ pf_name f)
                   (typescriptDefaults s1) of
              Inl e \<Rightarrow> (Inl e, s1)
            | Inr d \<Rightarrow> (Inr (), s1\<lparr>typescriptDefaults := d\<rparr>)) (environmentFiles p) s = (r, s')"
    by (simp add: setEnvironmentFiles_def)
  ultimately show "?P s'"
    by (rule forEach_inv [rotated]) (auto split: sum.splits)
qed

lemma setProjectFiles_frame:
  assumes "setProjectFiles api s = (r, s')"
  shows "fileMap s' = fileMap s \<and> models s' = models s"
proof (cases "project s")
  case None
  with assms show ?thesis by (simp add: setProjectFiles_def)
next
  case (Some p)
  let ?P = "\<lambda>t. fileMap t = fileMap s \<and> models t = models s"
  have "?P s" by simp
  moreover from Some assms have "forEach (\<lambda>f s1.
            if pf_type f = TypeScript \<or> pf_type f = Definition then
              (case addExtraLib api (pf_text f) (''file:///'' @ pf_name f) (typescriptDefaults s1) of
                 Inl e \<Rightarrow> (Inl e, s1)
               | Inr d \<Rightarrow> (Inr (), s1\<lparr>typescriptDefaults := d\<rparr>))
            else (Inr (), s1)) (files p) s = (r, s')"
    by (simp add: setProjectFiles_def)
  ultimately show "?P s'"
    by (rule forEach_inv [rotated]) (auto split: sum.splits if_splits)
qed

lemma load_frame:
  assumes "load api filename s = (r, s')"
  shows "fileMap s' = fileMap s \<and> models s' = models s"
proof (cases "project s")
  case (Some p)
  with assms show ?thesis by (simp add: load_def)
next
  case None
  show ?thesis
  proof (cases "request api filename")
    case (Inl e)
    with None assms show ?thesis by (simp add: load_unloaded)
  next
    case (Inr b)
    let ?s0 = "s\<lparr>project := Some b\<rparr>"
    from None Inr assms have "bind (setTypeScriptEnvironment api) (\<lambda>_.
        bind (setEnvironmentFiles api) (\<lambda>_. setProjectFiles api)) ?s0 = (r, s')"
      by (simp add: load_unloaded configure_def)
    then show ?thesis
    proof (cases rule: bind_cases)
      case (fail e)
      from setTypeScriptEnvironment_frame [OF fail(1)] show ?thesis by simp
    next
      case (ok u s1)
      from setTypeScriptEnvironment_frame [OF ok(1)] have 1: "fileMap s1 = fileMap s \<and> models s1 = models s"
        by simp
      from ok(2) show ?thesis
      proof (cases rule: bind_cases)
        case (fail e)
        from setEnvironmentFiles_frame [OF fail(1)] 1 show ?thesis by simp
      next
        case (ok u2 s2)
        from setEnvironmentFiles_frame [OF ok(1)] setProjectFiles_frame [OF ok(2)] 1
        show ?thesis by simp
      qed
    qed
  qed
qed

lemma load_wf: "wf s \<Longrightarrow> load api filename s = (r, s') \<Longrightarrow> wf s'"
  using load_frame [of api filename s r s'] by (simp add: wf_def)

subsection \<open>Sessions\<close>

lemma step_wf:
  assumes "step s s'" and "wf s"
  shows "wf s'"
  using assms
proof (cases rule: step.cases)
  case (call_load api filename r)
  with assms(2) show ?thesis by (blast intro: load_wf)
next
  case (call_get api r)
  with assms(2) show ?thesis by (blast intro: get_inv keeps_wf)
next
  case (call_getFileModel api filename r)
  with assms(2) show ?thesis by (blast intro: keeps_getFileModel keeps_wf)
next
  case (call_isFileDirty filename r)
  with assms(2) show ?thesis by (blast intro: keeps_isFileDirty [OF keeps_wf [of exampleApi]])
next
  case (call_setFileDirty filename reset r)
  with assms(2) show ?thesis by (blast intro: keeps_setFileDirty [OF keeps_wf [of exampleApi]])
next
  case (call_emit api r)
  with assms(2) show ?thesis by (blast intro: emit_inv keeps_wf)
next
  case (buffer_edit h v)
  with assms(2) show ?thesis by (simp add: edit_wf)
qed

lemma steps_wf: "rtranclp step s s' \<Longrightarrow> wf s \<Longrightarrow> wf s'"
  by (induction rule: rtranclp_induct) (auto intro: step_wf)

lemma reachable_wf: "rtranclp step initial s \<Longrightarrow> wf s"
  using steps_wf wf_initial by blast

lemma step_cached:
  assumes "step s s'" and c: "cached p r0 h s"
  shows "cached p r0 h s'"
  using assms(1)
proof (cases rule: step.cases)
  case (call_load api filename r)
  from c have "project s \<noteq> None" by (auto simp: cached_def)
  with call_load c show ?thesis by (simp add: load_def)
next
  case (call_get api r)
  with c show ?thesis by (blast intro: get_inv keeps_cached)
next
  case (call_getFileModel api filename r)
  with c show ?thesis by (blast intro: keeps_getFileModel keeps_cached)
next
  case (call_isFileDirty filename r)
  with c show ?thesis by (blast intro: keeps_isFileDirty [OF keeps_cached [of exampleApi]])
next
  case (call_setFileDirty filename reset r)
  with c show ?thesis by (blast intro: keeps_setFileDirty [OF keeps_cached [of exampleApi]])
next
  case (call_emit api r)
  with c show ?thesis by (blast intro: emit_inv keeps_cached)
next
  case (buffer_edit h' v)
  with c show ?thesis by (simp add: cached_def edit_simps)
qed

lemma steps_cached: "rtranclp step s s' \<Longrightarrow> cached p r0 h s \<Longrightarrow> cached p r0 h s'"
  by (induction rule: rtranclp_induct) (auto intro: step_cached)

lemma cached_getFileModel:
  assumes "cached p r0 h s" and fr: "fr p n = Some (r0, f0)"
  shows "getFileModel api n s = (Inr h, s)"
proof -
  from assms(1) obtain q where q: "project s = Some q"
    "map pf_name (files q) = map pf_name (files p)" and m: "mdl s r0 = Some h"
    by (auto simp: cached_def)
  have "fr q n = Some (r0, files q ! r0)"
    using find_ref_names [OF q(2), of n] fr by simp
  from getFileModel_again [OF q(1) this m] show ?thesis .
qed

lemma sameModels_refl: "sameModels s s"
  by (simp add: sameModels_def)

lemma sameModels_eq: "models s2 = models s1 \<Longrightarrow> sameModels s s1 \<Longrightarrow> sameModels s s2"
  by (simp add: sameModels_def)

lemma keeps_sameModels: "keeps api (sameModels s0)"
  unfolding keeps_def
proof (intro conjI allI impI)
  fix n s r s' assume c: "sameModels s0 s" and run: "getFileModel api n s = (r, s')"
  from getFileModel_effect [OF run] show "sameModels s0 s'"
  proof (elim disjE exE conjE)
    assume "s' = s" with c show ?thesis by simp
  next
    fix r1 m
    assume "s' = s\<lparr>models := models s @ [m],
            fileMap := (fileMap s)(r1 \<mapsto> \<lparr>dirty = dflag s r1, model = Some (length (models s))\<rparr>)\<rparr>"
    with c show ?thesis by (auto simp: sameModels_def nth_append)
  qed
next
  fix n s r s' assume c: "sameModels s0 s" and run: "isFileDirty n s = (r, s')"
  from isFileDirty_effect [OF run] have "models s' = models s" by (simp add: same_view_def)
  then show "sameModels s0 s'" using c by (rule sameModels_eq)
next
  fix n x s r s' assume c: "sameModels s0 s" and run: "setFileDirty n x s = (r, s')"
  from setFileDirty_effect [OF run] have "models s' = models s" by auto
  then show "sameModels s0 s'" using c by (rule sameModels_eq)
next
  fix i v s assume c: "sameModels s0 s"
  have "models (setText i v s) = models s" by (simp add: setText_def)
  then show "sameModels s0 (setText i v s)" using c by (rule sameModels_eq)
qed

lemma edit_sameModels:
  assumes "sameModels s0 s"
  shows "sameModels s0 (edit h v s)"
  unfolding sameModels_def
proof (intro conjI allI impI)
  show "length (models s0) \<le> length (models (edit h v s))"
    using assms by (simp add: sameModels_def edit_simps)
next
  fix i assume i: "i < length (models s0)"
  with assms have il: "i < length (models s)" and
    u: "m_uri (models s ! i) = m_uri (models s0 ! i)" and
    l: "m_language (models s ! i) = m_language (models s0 ! i)"
    by (auto simp: sameModels_def)
  show "m_uri (models (edit h v s) ! i) = m_uri (models s0 ! i)"
    using il u by (cases "i = h") (simp_all add: edit_def)
  show "m_language (models (edit h v s) ! i) = m_language (models s0 ! i)"
    using il l by (cases "i = h") (simp_all add: edit_def)
qed

lemma step_sameModels:
  assumes "step s s'" and c: "sameModels s0 s"
  shows "sameModels s0 s'"
  using assms(1)
proof (cases rule: step.cases)
  case (call_load api filename r)
  from load_frame [OF call_load] have "models s' = models s" by simp
  then show ?thesis using c by (rule sameModels_eq)
next
  case (call_get api r)
  with c show ?thesis by (blast intro: get_inv keeps_sameModels)
next
  case (call_getFileModel api filename r)
  with c show ?thesis by (blast intro: keeps_getFileModel keeps_sameModels)
next
  case (call_isFileDirty filename r)
  with c show ?thesis by (blast intro: keeps_isFileDirty [OF keeps_sameModels [of exampleApi]])
next
  case (call_setFileDirty filename reset r)
  with c show ?thesis by (blast intro: keeps_setFileDirty [OF keeps_sameModels [of exampleApi]])
next
  case (call_emit api r)
  with c show ?thesis by (blast intro: emit_inv keeps_sameModels)
next
  case (buffer_edit h' v)
  with c show ?thesis by (simp add: edit_sameModels)
qed

lemma steps_sameModels: "rtranclp step s s' \<Longrightarrow> sameModels s0 s \<Longrightarrow> sameModels s0 s'"
  by (induction rule: rtranclp_induct) (auto intro: step_sameModels)

lemma readme_model:
  "getFileModel exampleApi ''readme.md'' loaded =
     (Inr 0, loaded\<lparr>
        fileMap := [2 \<mapsto> \<lparr>dirty = None, model = Some 0\<rparr>],
        models := [\<lparr>m_value = ''hello'', m_language = ''markdown'',
                    m_uri = \<lparr>fsPath = ''/readme.md'', toString = ''file:///readme.md''\<rparr>\<rparr>]\<rparr>)"
  by (simp add: loaded_eq exampleBundle_def exampleApi_def run_defs numeral_2_eq_2)

text \<open>
  C9. For every loaded project and every file name in it, two calls of
  \<open>getFileModel(name)\<close> return the identical buffer handle. The first call returns a
  handle of a model in the store, the buffer of the file, and records it in the meta data
  of the first file of that name: when no model was recorded it is a new model, made from
  that file and added to the store, otherwise it is the recorded one and nothing changes.
  Every later call in the session, after any calls of methods and any edits of buffers,
  returns that handle and changes nothing; the handle is still the one recorded, and it
  still denotes a model of the store with the same uri and language.
\<close>

theorem getFileModel_cached:
  assumes "wf s" and "project s = Some p" and "filename \<in> set (map pf_name (files p))"
  shows "\<exists>h s1 r0 f0.
     getFileModel api filename s = (Inr h, s1) \<and>
     find_ref (\<lambda>f. pf_name f = filename) (files p) = Some (r0, f0) \<and>
     h < length (models s1) \<and> mdl s1 r0 = Some h \<and>
     buffer api filename s = Some (models s1 ! h) \<and>
     (case mdl s r0 of
        None \<Rightarrow> h = length (models s) \<and> models s1 = models s @ [newModel api f0]
      | Some h0 \<Rightarrow> h = h0 \<and> s1 = s) \<and>
     (\<forall>s2 api'. rtranclp step s1 s2 \<longrightarrow>
        getFileModel api' filename s2 = (Inr h, s2) \<and>
        h < length (models s2) \<and> mdl s2 r0 = Some h \<and>
        m_uri (models s2 ! h) = m_uri (models s1 ! h) \<and>
        m_language (models s2 ! h) = m_language (models s1 ! h))"
proof -
  from fr_known [OF assms(3)] obtain r0 f0 where fr: "fr p filename = Some (r0, f0)" by blast
  from getFileModel_step [OF assms(1,2) fr, of api] obtain h s1 where
    1: "getFileModel api filename s = (Inr h, s1)" and wf1: "wf s1" and
    q1: "project s1 = Some p" and h1: "h < length (models s1)" and
    b: "buffer api filename s = Some (models s1 ! h)" and
    m1: "mdl s1 = (mdl s)(r0 \<mapsto> h)"
    by blast
  have fresh: "case mdl s r0 of
        None \<Rightarrow> h = length (models s) \<and> models s1 = models s @ [newModel api f0]
      | Some h0 \<Rightarrow> h = h0 \<and> s1 = s"
    using getFileModel_loaded [OF assms(2) fr, of api] 1 by (auto split: option.splits)
  have c1: "cached p r0 h s1" using q1 m1 by (simp add: cached_def)
  have later: "getFileModel api' filename s2 = (Inr h, s2) \<and>
        h < length (models s2) \<and> mdl s2 r0 = Some h \<and>
        m_uri (models s2 ! h) = m_uri (models s1 ! h) \<and>
        m_language (models s2 ! h) = m_language (models s1 ! h)"
    if st: "rtranclp step s1 s2" for s2 api'
  proof -
    have c2: "cached p r0 h s2" using steps_cached [OF st c1] .
    then have m2: "mdl s2 r0 = Some h" by (simp add: cached_def)
    have wf2: "wf s2" using steps_wf [OF st wf1] .
    with m2 have h2: "h < length (models s2)" by (simp add: wf_mdl)
    have "sameModels s1 s2" using steps_sameModels [OF st sameModels_refl] .
    with h1 have "m_uri (models s2 ! h) = m_uri (models s1 ! h)"
      "m_language (models s2 ! h) = m_language (models s1 ! h)"
      by (auto simp: sameModels_def)
    with cached_getFileModel [OF c2 fr, of api'] h2 m2 show ?thesis by simp
  qed
  have m1': "mdl s1 r0 = Some h" using m1 by simp
  have L: "\<forall>s2 api'. rtranclp step s1 s2 \<longrightarrow>
        getFileModel api' filename s2 = (Inr h, s2) \<and>
        h < length (models s2) \<and> mdl s2 r0 = Some h \<and>
        m_uri (models s2 ! h) = m_uri (models s1 ! h) \<and>
        m_language (models s2 ! h) = m_language (models s1 ! h)"
    by (intro allI impI) (rule later)
  show ?thesis
    by (intro exI [of _ h] exI [of _ s1] exI [of _ r0] exI [of _ f0] conjI)
      (rule 1 fr h1 m1' b fresh L)+
qed

theorem getFileModel_cached_witness:
  "wf loaded \<and> project loaded = Some exampleBundle \<and>
   ''readme.md'' \<in> set (map pf_name (files exampleBundle)) \<and>
   (\<exists>s1. getFileModel exampleApi ''readme.md'' loaded = (Inr 0, s1) \<and>
      models s1 = [\<lparr>m_value = ''hello'', m_language = ''markdown'',
                    m_uri = \<lparr>fsPath = ''/readme.md'', toString = ''file:///readme.md''\<rparr>\<rparr>] \<and>
      mdl s1 2 = Some 0 \<and>
      buffer exampleApi ''readme.md'' loaded = Some (models s1 ! 0) \<and>
      getFileModel exampleApi ''readme.md'' s1 = (Inr 0, s1) \<and>
      fst (getFileModel exampleApi ''readme.md''
        (snd (get exampleApi (edit 0 ''changed'' (snd (setFileDirty ''readme.md'' None s1))))))
        = Inr 0 \<and>
      m_uri (models (snd (get exampleApi (edit 0 ''changed''
        (snd (setFileDirty ''readme.md'' None s1))))) ! 0) = m_uri (models s1 ! 0))"
proof -
  have mem: "''readme.md'' \<in> set (map pf_name (files exampleBundle))"
    by (simp add: exampleBundle_def)
  from getFileModel_cached [OF wf_loaded loaded_project mem, of exampleApi]
  obtain h s1 r0 f0 where
    1: "getFileModel exampleApi ''readme.md'' loaded = (Inr h, s1)" and
    fr: "fr exampleBundle ''readme.md'' = Some (r0, f0)" and
    m1: "mdl s1 r0 = Some h" and
    b: "buffer exampleApi ''readme.md'' loaded = Some (models s1 ! h)" and
    later: "\<And>s2 api'. rtranclp step s1 s2 \<Longrightarrow>
        getFileModel api' ''readme.md'' s2 = (Inr h, s2) \<and>
        h < length (models s2) \<and> mdl s2 r0 = Some h \<and>
        m_uri (models s2 ! h) = m_uri (models s1 ! h) \<and>
        m_language (models s2 ! h) = m_language (models s1 ! h)"
    by blast
  from 1 readme_model have h: "h = 0" and
    ms: "models s1 = [\<lparr>m_value = ''hello'', m_language = ''markdown'',
                    m_uri = \<lparr>fsPath = ''/readme.md'', toString = ''file:///readme.md''\<rparr>\<rparr>]"
    by auto
  from fr have r0: "r0 = 2" by (simp add: exampleBundle_def)
  let ?a = "snd (setFileDirty ''readme.md'' None s1)"
  let ?b = "edit 0 ''changed'' ?a"
  let ?c = "snd (get exampleApi ?b)"
  have "step s1 ?a" by (rule call_setFileDirty) (rule surjective_pairing)
  moreover have "step ?a ?b" by (rule buffer_edit)
  moreover have "step ?b ?c" by (rule call_get) (rule surjective_pairing)
  ultimately have st: "rtranclp step s1 ?c" by simp
  have A: "getFileModel exampleApi ''readme.md'' loaded = (Inr 0, s1)"
    using 1 h by (simp only:)
  have B: "mdl s1 2 = Some 0"
    using m1 h r0 by (simp only:)
  have C: "buffer exampleApi ''readme.md'' loaded = Some (models s1 ! 0)"
    using b h by (simp only:)
  have D: "getFileModel exampleApi ''readme.md'' s1 = (Inr 0, s1)"
    using later [OF rtranclp.rtrancl_refl, of exampleApi] h by (simp only:)
  have "getFileModel exampleApi ''readme.md'' ?c = (Inr 0, ?c) \<and>
      m_uri (models ?c ! 0) = m_uri (models s1 ! 0)"
    using later [OF st, of exampleApi] h by (simp only:)
  then have E: "fst (getFileModel exampleApi ''readme.md'' ?c) = Inr 0"
    and F: "m_uri (models ?c ! 0) = m_uri (models s1 ! 0)"
    by (simp_all only: fst_conv)
  show ?thesis
    by (intro conjI exI [of _ s1]) (rule wf_loaded loaded_project mem A ms B C D E F)+
qed

section \<open>File names, unknown names and load\<close>

subsection \<open>C6: the names of the files\<close>

text \<open>
  C6. For every loaded project, \<open>getFiles()\<close> returns exactly the names of the bundle's
  files in bundle order, and \<open>getFiles(kinds...)\<close> with one or more kinds returns the
  names, in the same order, of the files whose kind is among the given kinds; when no
  project is loaded, \<open>getFiles\<close> fails with the error 'Project not loaded.'. The state
  is the same after the call.
\<close>

theorem getFiles_names:
  "(project s = Some p \<longrightarrow>
      getFiles [] s = (Inr (map pf_name (files p)), s) \<and>
      (kinds \<noteq> [] \<longrightarrow>
         getFiles kinds s =
           (Inr (map pf_name (filter (\<lambda>f. pf_type f \<in> set kinds) (files p))), s))) \<and>
   (project s = None \<longrightarrow> getFiles kinds s = (Inl NotLoadedError, s))"
  by (simp add: getFiles_def)

theorem getFiles_names_witness:
  "getFiles [] loaded =
     (Inr [''a.ts'', ''skip.ts'', ''readme.md'', ''docs/./x/./notes.txt''], loaded) \<and>
   getFiles [Markdown, TypeScript] loaded = (Inr [''a.ts'', ''skip.ts'', ''readme.md''], loaded) \<and>
   getFiles [Markdown] initial = (Inl NotLoadedError, initial)"
  using getFiles_names [of loaded exampleBundle "[Markdown, TypeScript]"]
    getFiles_names [of initial exampleBundle "[Markdown]"]
  by (simp add: loaded_eq exampleBundle_def initial_def)

subsection \<open>C3: the dirty flag of a name that is not in the project\<close>

text \<open>
  C3, as claimed: for a loaded project and a name that is not one of its file names,
  \<open>isFileDirty(name)\<close> fails with an unknown-file error. It does not: on the loaded
  example project, \<open>isFileDirty('missing.ts')\<close> returns \<open>false\<close>.
\<close>

theorem isFileDirty_unknown_counterexample:
  "project loaded = Some exampleBundle \<and>
   ''missing.ts'' \<notin> set (map pf_name (files exampleBundle)) \<and>
   isFileDirty ''missing.ts'' loaded = (Inr False, loaded)"
  by (simp add: loaded_eq exampleBundle_def isFileDirty_def getFile_def monad_defs)

text \<open>
  C3, amended. For every loaded project and every name that is not one of the project's
  file names, \<open>isFileDirty(name)\<close> returns \<open>false\<close> (the guard \<open>file &&\<close> of the
  method), and \<open>setFileDirty(name)\<close>, with or without \<open>reset\<close>, fails with the error
  'File "name" is not part of the project.'; neither call changes the state.
\<close>

theorem unknown_file_dirty:
  assumes "project s = Some p" and "filename \<notin> set (map pf_name (files p))"
  shows "isFileDirty filename s = (Inr False, s) \<and>
         setFileDirty filename reset s = (Inl (UnknownFileError filename), s)"
proof -
  have "find_ref (\<lambda>f. pf_name f = filename) (files p) = None"
    using assms(2) by (auto simp: find_ref_None)
  then show ?thesis
    using assms(1) by (simp add: isFileDirty_def setFileDirty_def getFile_def monad_defs)
qed

theorem unknown_file_dirty_witness:
  "isFileDirty ''missing.ts'' loaded = (Inr False, loaded) \<and>
   setFileDirty ''missing.ts'' None loaded = (Inl (UnknownFileError ''missing.ts''), loaded)"
  using unknown_file_dirty [of loaded exampleBundle "''missing.ts''" None]
  by (simp add: loaded_eq exampleBundle_def)

subsection \<open>C7: a second load\<close>

text \<open>
  C7. On an instance on which \<open>load\<close> has succeeded, a second call of \<open>load\<close>, with
  any file name and any collaborators, fails with the error 'Project is already loaded.',
  and the state after that failure is the state after the first load.
\<close>

theorem load_twice:
  assumes "load api filename s = (Inr (), s')"
  shows "load api' filename' s' = (Inl AlreadyLoadedError, s')"
  using load_success_project [OF assms] by (simp add: load_def)

theorem load_twice_witness:
  "load exampleApi ''bundle.json'' initial = (Inr (), loaded) \<and>
   load exampleApi ''other.json'' loaded = (Inl AlreadyLoadedError, loaded)"
proof -
  have h: "load exampleApi ''bundle.json'' initial = (Inr (), loaded)"
    unfolding loaded_eq
    by (simp add: load_def initial_def exampleApi_def loadBundle_def monad_defs
      setTypeScriptEnvironment_def setEnvironmentFiles_def setProjectFiles_def exampleBundle_def
      Let_def getProp_def)
  show ?thesis using h load_twice [OF h, of exampleApi "''other.json''"] by simp
qed

subsection \<open>C2: a load whose configuration of the environment fails\<close>

text \<open>
  C2, as claimed: when the configuration of the environment fails inside \<open>load\<close>, no
  project becomes loaded and the state is rolled back. It is not: with a compiler context
  that rejects the options, \<open>load\<close> on a fresh instance rejects, and afterwards
  \<open>isLoaded()\<close> is true and the state differs from the initial one.
\<close>

theorem load_rollback_counterexample:
  "\<not> isLoaded initial \<and>
   fst (load rejectingApi ''bundle.json'' initial) = Inl (ExternalError ''rejected'') \<and>
   isLoaded (snd (load rejectingApi ''bundle.json'' initial)) \<and>
   snd (load rejectingApi ''bundle.json'' initial) \<noteq> initial"
  by (auto simp add: isLoaded_def initial_def load_def loadBundle_def bind_def
      setTypeScriptEnvironment_def rejectingApi_def exampleApi_def Let_def)

text \<open>
  C2, amended. If no project is loaded, the bundle is fetched and parsed, and the
  configuration of the environment then fails with an error, \<open>load\<close> rejects with that
  error, and the parsed bundle stays stored: \<open>isLoaded()\<close> returns true afterwards (there
  is no rollback of \<open>_project\<close>).
\<close>

theorem load_failed_configuration:
  assumes "project s = None" and "request api filename = Inr b"
    and "fst (configure api (s\<lparr>project := Some b\<rparr>)) = Inl e"
  shows "fst (load api filename s) = Inl e \<and>
         project (snd (load api filename s)) = Some b \<and>
         isLoaded (snd (load api filename s))"
proof -
  obtain r s' where c: "configure api (s\<lparr>project := Some b\<rparr>) = (r, s')" by fastforce
  from configure_project [OF c] have "project s' = Some b" by simp
  with assms c show ?thesis by (simp add: load_unloaded isLoaded_def)
qed

theorem load_failed_configuration_witness:
  "project initial = None \<and> request rejectingApi ''bundle.json'' = Inr exampleBundle \<and>
   fst (configure rejectingApi (initial\<lparr>project := Some exampleBundle\<rparr>)) =
     Inl (ExternalError ''rejected'') \<and>
   fst (load rejectingApi ''bundle.json'' initial) = Inl (ExternalError ''rejected'') \<and>
   project (snd (load rejectingApi ''bundle.json'' initial)) = Some exampleBundle \<and>
   isLoaded (snd (load rejectingApi ''bundle.json'' initial))"
proof -
  have a: "project initial = None" by (simp add: initial_def)
  have b: "request rejectingApi ''bundle.json'' = Inr exampleBundle"
    by (simp add: rejectingApi_def exampleApi_def)
  have c: "fst (configure rejectingApi (initial\<lparr>project := Some exampleBundle\<rparr>)) =
      Inl (ExternalError ''rejected'')"
    by (simp add: configure_def bind_def setTypeScriptEnvironment_def rejectingApi_def
        exampleApi_def Let_def)
  show ?thesis using a b c load_failed_configuration [OF a b c] by simp
qed

end
